theory Spec2Isabelle
  imports Complex_Main "HOL-Library.Word"
begin

section \<open>Data model of the voice front end (App component)\<close>

text \<open>
  The component keeps its state in React state variables and refs. The model collects
  them in one record and passes it explicitly. Samples and loudness values are modelled
  over the reals (rounding of IEEE doubles is not modelled); the only non-real value the
  code can produce, \<open>NaN\<close> from \<open>0 / 0\<close> on an empty range, is a constructor of its own.
\<close>

datatype number = NaN | Val real

text \<open>\<open>a > b\<close> on numbers: any comparison with \<open>NaN\<close> is false.\<close>

fun gt :: "number \<Rightarrow> real \<Rightarrow> bool" where
  "gt NaN t = False"
| "gt (Val x) t = (t < x)"

datatype status = Waiting | Listening | Speaking | Processing

datatype role = User | Assistant

text \<open>
  JavaScript strings are sequences of UTF-16 code units; a code unit is a natural
  number here, and \<open>js\<close> turns an ASCII literal into such a sequence.
\<close>

type_synonym jsstring = "nat list"

definition js :: "string \<Rightarrow> jsstring" where
  "js s = map of_char s"

type_synonym blob = "8 word list"

record files_info =
  original_audio :: jsstring
  files_transcription :: jsstring
  tts_audio :: jsstring

record message =
  role :: role
  content :: jsstring
  audio :: "jsstring option"
  transcription :: "jsstring option"
  files :: "files_info option"

text \<open>The JSON object of a successful reply of the chat service.\<close>

record service_data =
  d_transcription :: "jsstring option"
  d_response :: jsstring
  d_audio :: "jsstring option"
  d_files :: "files_info option"

text \<open>
  What \<open>await fetch(...)\<close>, the \<open>response.ok\<close> test and \<open>await response.json()\<close>
  can deliver to \<open>processAudio\<close>.
\<close>

datatype fetch_outcome = FetchRejected | HttpNotOk | JsonRejected | Ok service_data

datatype media_src = NoSrc | BlobUrl blob

text \<open>
  The \<open><audio>\<close> element behind \<open>audioPlayerRef\<close>. The three handler fields say
  whether a handler is installed; \<open>playPending\<close> says that a promise returned by
  \<open>play()\<close> is still unsettled.
\<close>

record audio_el =
  paused :: bool
  currentTime :: nat
  src :: media_src
  onended :: bool
  onerror :: bool
  onpause :: bool
  playPending :: bool

datatype recorder_state = Inactive | Recording

text \<open>
  A \<open>MediaRecorder\<close> started without a time slice gathers data until it is stopped.
  \<open>timerDue\<close> is the time at which the \<open>setTimeout\<close> callback registered next to
  \<open>mediaRecorder.start()\<close> is due, \<open>None\<close> once the callback has run.
\<close>

record media_recorder =
  rstate :: recorder_state
  captured :: blob
  timerDue :: "nat option"

text \<open>
  The environment decides what the program cannot: whether \<open>getUserMedia\<close> rejects,
  and which calls on the audio element or on the external stop hook throw.
\<close>

record env =
  micDenied :: bool
  pauseThrows :: bool
  seekThrows :: bool
  srcThrows :: bool
  loadThrows :: bool
  playThrows :: bool
  interceptThrows :: bool

definition no_faults :: env where
  "no_faults = \<lparr> micDenied = False, pauseThrows = False, seekThrows = False,
     srcThrows = False, loadThrows = False, playThrows = False, interceptThrows = False \<rparr>"

text \<open>
  \<open>processorRef\<close> stands for the four refs that \<open>startListening\<close> sets and
  \<open>stopListening\<close> clears together (stream, context, source, processor).
  \<open>liveProcessors\<close> counts the script processors whose \<open>onaudioprocess\<close> is attached:
  \<open>startListening\<close> overwrites the refs without closing what they held, so a processor
  that is no longer referenced keeps delivering frames to the handler.
  \<open>audioController\<close> says whether \<open>window._audioController\<close> is set, and
  \<open>interceptCalls\<close> counts the completed calls of its \<open>intercept\<close> hook.
  \<open>pendingRequest\<close> is the body of a \<open>fetch\<close> that has not settled yet, and \<open>now\<close>
  is the time in milliseconds.
\<close>

record app_state =
  messages :: "message list"
  status :: status
  loading :: bool
  isRecording :: bool
  isRecordingRef :: bool
  barVolumes :: "number list"
  isTTSStoppedRef :: bool
  speechBufferCount :: nat
  audioPlayerRef :: "audio_el option"
  audioController :: bool
  interceptCalls :: nat
  processorRef :: bool
  liveProcessors :: nat
  audioChunksRef :: "blob list"
  mediaRecorder :: "media_recorder option"
  pendingRequest :: "blob option"
  now :: nat

section \<open>Exceptions\<close>

text \<open>
  A block of statements either runs to its end or throws; the mutations made before the
  throw stay, so \<open>Threw\<close> carries the state reached.
\<close>

datatype exn = DOMException | TypeError | Error jsstring

datatype 'a outcome = Done 'a | Threw exn 'a

definition andThen :: "'a outcome \<Rightarrow> ('a \<Rightarrow> 'a outcome) \<Rightarrow> 'a outcome" where
  "andThen r f = (case r of Done s \<Rightarrow> f s | Threw e s \<Rightarrow> Threw e s)"

definition tryCatch :: "'a outcome \<Rightarrow> (exn \<Rightarrow> 'a \<Rightarrow> 'a outcome) \<Rightarrow> 'a outcome" where
  "tryCatch r h = (case r of Done s \<Rightarrow> Done s | Threw e s \<Rightarrow> h e s)"

definition tryFinally :: "'a outcome \<Rightarrow> ('a \<Rightarrow> 'a) \<Rightarrow> 'a outcome" where
  "tryFinally r f = (case r of Done s \<Rightarrow> Done (f s) | Threw e s \<Rightarrow> Threw e (f s))"

text \<open>\<open>try { ... } catch (e) { console.error(e) }\<close>: the exception is logged and dropped.\<close>

definition logged :: "'a outcome \<Rightarrow> 'a" where
  "logged r = (case r of Done s \<Rightarrow> s | Threw e s \<Rightarrow> s)"

section \<open>The audio element\<close>

definition el_pause :: "env \<Rightarrow> audio_el \<Rightarrow> audio_el outcome" where
  "el_pause ev a = (if pauseThrows ev then Threw DOMException a else Done (a\<lparr>paused := True\<rparr>))"

definition el_seek0 :: "env \<Rightarrow> audio_el \<Rightarrow> audio_el outcome" where
  "el_seek0 ev a = (if seekThrows ev then Threw DOMException a else Done (a\<lparr>currentTime := 0\<rparr>))"

definition el_set_src :: "env \<Rightarrow> media_src \<Rightarrow> audio_el \<Rightarrow> audio_el outcome" where
  "el_set_src ev u a = (if srcThrows ev then Threw DOMException a else Done (a\<lparr>src := u\<rparr>))"

text \<open>
  \<open>load()\<close> is always the last call of its block, after the element has been paused,
  rewound and emptied, so it changes none of the fields modelled here.
\<close>

definition el_load :: "env \<Rightarrow> audio_el \<Rightarrow> audio_el outcome" where
  "el_load ev a = (if loadThrows ev then Threw DOMException a else Done a)"

definition el_play :: "env \<Rightarrow> audio_el \<Rightarrow> audio_el outcome" where
  "el_play ev a = (if playThrows ev then Threw DOMException a
                   else Done (a\<lparr>paused := False, playPending := True\<rparr>))"

text \<open>\<open>if (audioPlayerRef.current) { try { body } catch (e) { log } }\<close>\<close>

definition withPlayer :: "(audio_el \<Rightarrow> audio_el outcome) \<Rightarrow> app_state \<Rightarrow> app_state" where
  "withPlayer body s =
     (case audioPlayerRef s of
        None \<Rightarrow> s
      | Some a \<Rightarrow> s\<lparr>audioPlayerRef := Some (logged (body a))\<rparr>)"

text \<open>The block \<open>pause(); currentTime = 0; src = ''; load();\<close> of the handler and of
  \<open>startRecording\<close>.\<close>

definition stopSteps :: "env \<Rightarrow> audio_el \<Rightarrow> audio_el outcome" where
  "stopSteps ev a =
     andThen (el_pause ev a) (\<lambda>a.
     andThen (el_seek0 ev a) (\<lambda>a.
     andThen (el_set_src ev NoSrc a) (\<lambda>a.
     el_load ev a)))"

section \<open>Energy analysis\<close>

text \<open>\<open>xs.reduce((sum, s) => sum + s * s, 0) / xs.length\<close>; on an empty range this is
  \<open>0 / 0\<close>.\<close>

definition meanSquare :: "real list \<Rightarrow> number" where
  "meanSquare xs =
     (if xs = [] then NaN
      else Val (foldl (\<lambda>sum sample. sum + sample * sample) 0 xs / real (length xs)))"

fun jsSqrt :: "number \<Rightarrow> number" where
  "jsSqrt NaN = NaN"
| "jsSqrt (Val x) = (if x < 0 then NaN else Val (sqrt x))"

definition rmsOf :: "real list \<Rightarrow> number" where
  "rmsOf inputData = jsSqrt (meanSquare inputData)"

text \<open>\<open>xs.slice(start, end)\<close> for \<open>start \<le> end\<close>.\<close>

definition slice :: "real list \<Rightarrow> nat \<Rightarrow> nat \<Rightarrow> real list" where
  "slice xs start end = take (end - start) (drop start xs)"

text \<open>\<open>Math.min(1, x * 10)\<close>\<close>

fun scaleClamp :: "number \<Rightarrow> number" where
  "scaleClamp NaN = NaN"
| "scaleClamp (Val x) = Val (min 1 (x * 10))"

definition bandRange :: "real list \<Rightarrow> nat \<Rightarrow> real list" where
  "bandRange inputData i =
     (let bandSize = length inputData div 8;
          start = i * bandSize;
          end = (if i = 7 then length inputData else (i + 1) * bandSize)
      in slice inputData start end)"

definition bandsOf :: "real list \<Rightarrow> number list" where
  "bandsOf inputData = map (\<lambda>i. scaleClamp (rmsOf (bandRange inputData i))) [0..<8]"

section \<open>Listening and recording\<close>

definition SPEECH_THRESHOLD :: real where
  "SPEECH_THRESHOLD = 2 / 100"

definition MIN_SPEECH_BUFFERS :: nat where
  "MIN_SPEECH_BUFFERS = 6"

definition INTERRUPT_THRESHOLD :: real where
  "INTERRUPT_THRESHOLD = 3 / 100"

definition stopListening :: "app_state \<Rightarrow> app_state" where
  "stopListening s =
     (if processorRef s
      then s\<lparr>processorRef := False, liveProcessors := liveProcessors s - 1\<rparr>
      else s)"

text \<open>
  \<open>startListening\<close> sets the status, waits for the microphone and then installs a new
  processor and clears the counter; a rejected \<open>getUserMedia\<close> is caught and logged.
  The wait is not modelled as a step of its own.
\<close>

definition startListening :: "env \<Rightarrow> app_state \<Rightarrow> app_state" where
  "startListening ev s =
     (let s1 = s\<lparr>status := Waiting\<rparr>
      in if micDenied ev then s1
         else s1\<lparr>processorRef := True, liveProcessors := liveProcessors s1 + 1,
                 speechBufferCount := 0\<rparr>)"

text \<open>
  \<open>startRecording\<close>: stop the player, stop listening, set the flags, empty the chunk
  list, and (once the microphone is granted) create and start a recorder with its
  five second timer. A rejected \<open>getUserMedia\<close> has no handler here: nothing more happens.
\<close>

definition startRecording :: "env \<Rightarrow> app_state \<Rightarrow> app_state" where
  "startRecording ev s =
     (let s1 = withPlayer (stopSteps ev) s;
          s2 = stopListening s1;
          s3 = s2\<lparr>status := Listening, isRecording := True, isRecordingRef := True,
                  audioChunksRef := []\<rparr>
      in if micDenied ev then s3
         else s3\<lparr>mediaRecorder :=
                   Some \<lparr>rstate = Recording, captured = [], timerDue = Some (now s3 + 5000)\<rparr>\<rparr>)"

section \<open>The speech detector inside \<open>onaudioprocess\<close>\<close>

text \<open>
  \<open>detect\<close> is the handler from the interrupt test on, given the RMS of the buffer;
  \<open>onaudioprocess\<close> is the whole handler. The handler has three outcomes, named after
  what it sets off: the interrupt branch, the branch that starts a recording after
  enough loud buffers, and everything else.

  The \<open>status\<close> that the handler tests is not the current state: it is the constant of
  the render whose \<open>startListening\<close> made the handler, here the argument \<open>st\<close>;
  \<open>setStatus\<close> changes the state that the next render reads, never this constant.
\<close>

datatype detector_event = NoEvent | SpeechStart | Interrupt

definition detect ::
  "env \<Rightarrow> status \<Rightarrow> number \<Rightarrow> app_state \<Rightarrow> detector_event \<times> app_state" where
  "detect ev st rms s =
     (if st = Speaking \<and> gt rms INTERRUPT_THRESHOLD then
        (Interrupt,
         startRecording ev (stopListening ((withPlayer (stopSteps ev) s)\<lparr>status := Listening\<rparr>)))
      else if gt rms SPEECH_THRESHOLD then
        (let s1 = s\<lparr>speechBufferCount := speechBufferCount s + 1\<rparr>
         in if MIN_SPEECH_BUFFERS \<le> speechBufferCount s1 \<and> \<not> isRecordingRef s1 then
              (SpeechStart,
               (startRecording ev
                  (stopListening (s1\<lparr>isRecording := True, isRecordingRef := True\<rparr>)))
                 \<lparr>speechBufferCount := 0\<rparr>)
            else if st \<noteq> Listening \<and> st \<noteq> Processing then
              (NoEvent, s1\<lparr>status := Listening\<rparr>)
            else (NoEvent, s1))
      else (NoEvent, s\<lparr>speechBufferCount := 0\<rparr>))"

definition onaudioprocess ::
  "env \<Rightarrow> status \<Rightarrow> real list \<Rightarrow> app_state \<Rightarrow> detector_event \<times> app_state" where
  "onaudioprocess ev st inputData s =
     detect ev st (rmsOf inputData) (s\<lparr>barVolumes := bandsOf inputData\<rparr>)"

text \<open>
  Every handler of the running component is made by the \<open>startListening\<close> of the first
  render: the mount effect calls that one, and every later call comes from a callback
  that this chain of calls registered (\<open>startRecording\<close>, \<open>onstop\<close>, \<open>processAudio\<close>,
  \<open>playAudioResponse\<close>, \<open>onended\<close>, \<open>onerror\<close>, all of the first render). The status of
  the first render is the initial value of \<open>useState\<close>.
\<close>

definition handlerStatus :: status where
  "handlerStatus = Waiting"

text \<open>
  A run of loudness values reaching the handler one after the other. A value that
  arrives when no processor is attached is not observed.
\<close>

fun observeAll :: "env \<Rightarrow> number list \<Rightarrow> app_state \<Rightarrow> detector_event list \<times> app_state" where
  "observeAll ev [] s = ([], s)"
| "observeAll ev (r # rs) s =
     (if 0 < liveProcessors s
      then (let (e, s1) = detect ev handlerStatus r s; (es, s2) = observeAll ev rs s1
            in (e # es, s2))
      else (let (es, s2) = observeAll ev rs s in (NoEvent # es, s2)))"

text \<open>The state of the loud-buffer run after \<open>n\<close> loud buffers that did not trigger.\<close>

definition heard :: "nat \<Rightarrow> app_state \<Rightarrow> app_state" where
  "heard n s =
     (if n = 0 then s
      else s\<lparr>speechBufferCount := speechBufferCount s + n, status := Listening\<rparr>)"

section \<open>Decoding the hex string of the reply\<close>

text \<open>
  \<open>audioHex.match(/.{1,2}/g)!.map(byte => parseInt(byte, 16))\<close>, stored into a
  \<open>Uint8Array\<close>. The dot of the regular expression matches any code unit but a line
  terminator; the global match returns the successive greedy matches, or \<open>null\<close> when
  there is none, and then \<open>.map\<close> throws a \<open>TypeError\<close>.
\<close>

definition isLineTerminator :: "nat \<Rightarrow> bool" where
  "isLineTerminator c = (c = 0x0A \<or> c = 0x0D \<or> c = 0x2028 \<or> c = 0x2029)"

fun matchChunks :: "jsstring \<Rightarrow> jsstring list" where
  "matchChunks [] = []"
| "matchChunks [a] = (if isLineTerminator a then [] else [[a]])"
| "matchChunks (a # b # rest) =
     (if isLineTerminator a then matchChunks (b # rest)
      else if isLineTerminator b then [a] # matchChunks rest
      else [a, b] # matchChunks rest)"

definition jsMatch :: "jsstring \<Rightarrow> jsstring list option" where
  "jsMatch s = (let ms = matchChunks s in if ms = [] then None else Some ms)"

text \<open>The code units that \<open>parseInt\<close> skips in front: white space and line terminators.\<close>

definition isTrimmed :: "nat \<Rightarrow> bool" where
  "isTrimmed c =
     (c = 0x09 \<or> c = 0x0B \<or> c = 0x0C \<or> c = 0x20 \<or> c = 0xA0 \<or> c = 0x1680
      \<or> (0x2000 \<le> c \<and> c \<le> 0x200A) \<or> c = 0x202F \<or> c = 0x205F \<or> c = 0x3000
      \<or> c = 0xFEFF \<or> isLineTerminator c)"

definition hexDigit :: "nat \<Rightarrow> nat option" where
  "hexDigit c =
     (if 0x30 \<le> c \<and> c \<le> 0x39 then Some (c - 0x30)
      else if 0x61 \<le> c \<and> c \<le> 0x66 then Some (c - 0x61 + 10)
      else if 0x41 \<le> c \<and> c \<le> 0x46 then Some (c - 0x41 + 10)
      else None)"

definition isHexDigit :: "nat \<Rightarrow> bool" where
  "isHexDigit c = (hexDigit c \<noteq> None)"

text \<open>
  \<open>parseInt(s, 16)\<close>: skip leading white space, read a sign, skip a prefix \<open>0x\<close> or
  \<open>0X\<close>, read hex digits as far as they go; \<open>None\<close> is \<open>NaN\<close>. The result is exact for
  the one or two code units it is applied to here.
\<close>

definition parseInt16 :: "jsstring \<Rightarrow> int option" where
  "parseInt16 inputString =
     (let s1 = dropWhile isTrimmed inputString;
          sign = (case s1 of c # _ \<Rightarrow> if c = 0x2D then - 1 else 1 | [] \<Rightarrow> (1::int));
          s2 = (case s1 of c # r \<Rightarrow> if c = 0x2B \<or> c = 0x2D then r else s1 | [] \<Rightarrow> s1);
          s3 = (case s2 of a # b # r \<Rightarrow> if a = 0x30 \<and> (b = 0x78 \<or> b = 0x58) then r else s2
                | _ \<Rightarrow> s2);
          z = takeWhile isHexDigit s3
      in if z = [] then None
         else Some (sign * int (foldl (\<lambda>acc c. 16 * acc + the (hexDigit c)) 0 z)))"

text \<open>Storing a number into a \<open>Uint8Array\<close>: \<open>NaN\<close> becomes 0, an integer is taken
  modulo 256.\<close>

definition toUint8 :: "int option \<Rightarrow> 8 word" where
  "toUint8 v = (case v of None \<Rightarrow> 0 | Some n \<Rightarrow> word_of_int n)"

definition hexToBinary :: "jsstring \<Rightarrow> exn + blob" where
  "hexToBinary audioHex =
     (case jsMatch audioHex of
        None \<Rightarrow> Inl TypeError
      | Some chunks \<Rightarrow> Inr (map (\<lambda>byte. toUint8 (parseInt16 byte)) chunks))"

section \<open>Playback\<close>

definition onPlayer :: "(audio_el \<Rightarrow> audio_el outcome) \<Rightarrow> app_state \<Rightarrow> app_state outcome" where
  "onPlayer body s =
     (case audioPlayerRef s of
        None \<Rightarrow> Done s
      | Some a \<Rightarrow>
          (case body a of
             Done a' \<Rightarrow> Done (s\<lparr>audioPlayerRef := Some a'\<rparr>)
           | Threw e a' \<Rightarrow> Threw e (s\<lparr>audioPlayerRef := Some a'\<rparr>)))"

definition setStatusWithLog :: "status \<Rightarrow> app_state \<Rightarrow> app_state" where
  "setStatusWithLog newStatus s = s\<lparr>status := newStatus\<rparr>"

text \<open>The block \<open>pause(); currentTime = 0; src = '';\<close> at the start of
  \<open>playAudioResponse\<close>.\<close>

definition resetSteps :: "env \<Rightarrow> audio_el \<Rightarrow> audio_el outcome" where
  "resetSteps ev a =
     andThen (el_pause ev a) (\<lambda>a.
     andThen (el_seek0 ev a) (\<lambda>a.
     el_set_src ev NoSrc a))"

definition playSteps :: "env \<Rightarrow> blob \<Rightarrow> audio_el \<Rightarrow> audio_el outcome" where
  "playSteps ev binary a =
     andThen (el_set_src ev (BlobUrl binary) a) (\<lambda>a.
     el_play ev (a\<lparr>onended := True, onerror := True\<rparr>))"

definition playAudioResponse :: "env \<Rightarrow> jsstring \<Rightarrow> app_state \<Rightarrow> app_state outcome" where
  "playAudioResponse ev audioHex s =
     (let s1 = (setStatusWithLog Speaking s)\<lparr>isTTSStoppedRef := False\<rparr>;
          s2 = withPlayer (resetSteps ev) s1
      in tryCatch
           (case hexToBinary audioHex of
              Inl e \<Rightarrow> Threw e s2
            | Inr binary \<Rightarrow>
                (if audioPlayerRef s2 \<noteq> None then onPlayer (playSteps ev binary) s2
                 else Done (startListening ev (setStatusWithLog Waiting s2))))
           (\<lambda>error s. Done (startListening ev (setStatusWithLog Waiting s))))"

text \<open>\<open>hardStopAudio\<close>: the external hook in one \<open>try\<close>, the element in another.\<close>

definition interceptBlock :: "env \<Rightarrow> app_state \<Rightarrow> app_state outcome" where
  "interceptBlock ev s =
     (if interceptThrows ev then Threw (Error (js ''intercept'')) s
      else Done (s\<lparr>interceptCalls := interceptCalls s + 1, audioController := False\<rparr>))"

definition hardStopSteps :: "env \<Rightarrow> audio_el \<Rightarrow> audio_el outcome" where
  "hardStopSteps ev a =
     stopSteps ev (a\<lparr>onended := False, onerror := False, onpause := False\<rparr>)"

definition hardStopAudio :: "env \<Rightarrow> app_state \<Rightarrow> app_state outcome" where
  "hardStopAudio ev s =
     andThen
       (if audioController s then tryCatch (interceptBlock ev s) (\<lambda>e s. Done s) else Done s)
       (\<lambda>s. andThen
          (tryCatch (onPlayer (hardStopSteps ev) s) (\<lambda>e s. Done s))
          (\<lambda>s. Done (s\<lparr>isTTSStoppedRef := True\<rparr>)))"

section \<open>The round trip to the chat service\<close>

text \<open>\<open>if (x)\<close> and \<open>x || d\<close> for an optional string: absent and empty are both falsy.\<close>

definition truthy :: "jsstring option \<Rightarrow> bool" where
  "truthy x = (case x of None \<Rightarrow> False | Some v \<Rightarrow> v \<noteq> [])"

definition orElse :: "jsstring option \<Rightarrow> jsstring \<Rightarrow> jsstring" where
  "orElse x d = (case x of None \<Rightarrow> d | Some v \<Rightarrow> if v = [] then d else v)"

definition userMessage :: "service_data \<Rightarrow> message" where
  "userMessage d =
     \<lparr> role = User, content = orElse (d_transcription d) (js ''Transcription not available''),
       audio = None, transcription = d_transcription d, files = d_files d \<rparr>"

definition assistantMessage :: "service_data \<Rightarrow> message" where
  "assistantMessage d =
     \<lparr> role = Assistant, content = d_response d, audio = d_audio d,
       transcription = None, files = None \<rparr>"

definition fallbackMessage :: message where
  "fallbackMessage =
     \<lparr> role = Assistant, content = js ''Sorry, there was an error processing your message.'',
       audio = None, transcription = None, files = None \<rparr>"

text \<open>
  \<open>processAudio\<close> up to \<open>await fetch(...)\<close>, and from there on once the request has
  settled with \<open>r\<close>.
\<close>

definition processAudio_begin :: "blob \<Rightarrow> app_state \<Rightarrow> app_state" where
  "processAudio_begin audioBlob s = s\<lparr>loading := True, pendingRequest := Some audioBlob\<rparr>"

definition processAudio_try :: "env \<Rightarrow> fetch_outcome \<Rightarrow> app_state \<Rightarrow> app_state outcome" where
  "processAudio_try ev r s =
     (case r of
        FetchRejected \<Rightarrow> Threw TypeError s
      | HttpNotOk \<Rightarrow> Threw (Error (js ''Failed to process audio'')) s
      | JsonRejected \<Rightarrow> Threw (Error (js ''SyntaxError'')) s
      | Ok d \<Rightarrow>
          (let s1 = s\<lparr>messages := messages s @ [userMessage d, assistantMessage d]\<rparr>
           in if truthy (d_audio d) then playAudioResponse ev (the (d_audio d)) s1
              else Done (startListening ev s1)))"

definition processAudio_resume :: "env \<Rightarrow> fetch_outcome \<Rightarrow> app_state \<Rightarrow> app_state outcome" where
  "processAudio_resume ev r s =
     tryFinally
       (tryCatch (processAudio_try ev r (s\<lparr>pendingRequest := None\<rparr>))
          (\<lambda>error s. Done (startListening ev (s\<lparr>messages := messages s @ [fallbackMessage]\<rparr>))))
       (\<lambda>s. s\<lparr>loading := False\<rparr>)"

definition processAudio :: "env \<Rightarrow> fetch_outcome \<Rightarrow> blob \<Rightarrow> app_state \<Rightarrow> app_state outcome" where
  "processAudio ev r audioBlob s = processAudio_resume ev r (processAudio_begin audioBlob s)"

section \<open>The recorder and its callbacks\<close>

definition ondataavailable :: "blob \<Rightarrow> app_state \<Rightarrow> app_state" where
  "ondataavailable d s = s\<lparr>audioChunksRef := audioChunksRef s @ [d]\<rparr>"

definition onstop_begin :: "app_state \<Rightarrow> app_state" where
  "onstop_begin s =
     (let s1 = s\<lparr>status := Processing\<rparr>;
          audioBlob = concat (audioChunksRef s1)
      in processAudio_begin audioBlob s1)"

definition onstop_resume :: "env \<Rightarrow> fetch_outcome \<Rightarrow> app_state \<Rightarrow> app_state outcome" where
  "onstop_resume ev r s =
     andThen (processAudio_resume ev r s)
       (\<lambda>s. Done (startListening ev
                    (s\<lparr>isRecording := False, isRecordingRef := False, status := Waiting\<rparr>)))"

text \<open>
  \<open>mediaRecorder.stop()\<close> on a recording recorder: it becomes inactive, delivers what it
  gathered in one \<open>dataavailable\<close> event and then fires \<open>stop\<close>.
\<close>

definition mediaRecorder_stop :: "app_state \<Rightarrow> app_state" where
  "mediaRecorder_stop s =
     (case mediaRecorder s of
        None \<Rightarrow> s
      | Some r \<Rightarrow>
          onstop_begin (ondataavailable (captured r)
            (s\<lparr>mediaRecorder := Some (r\<lparr>rstate := Inactive\<rparr>)\<rparr>)))"

text \<open>The callback of \<open>setTimeout(..., 5000)\<close>.\<close>

definition timeoutCallback :: "app_state \<Rightarrow> app_state" where
  "timeoutCallback s =
     (case mediaRecorder s of
        None \<Rightarrow> s
      | Some r \<Rightarrow> if rstate r = Recording then mediaRecorder_stop s else s)"

section \<open>The component as an event-driven machine\<close>

text \<open>
  What can happen to the mounted component: the effect hook runs or is cleaned up, a
  script processor delivers a buffer, the recorder's stream delivers data, time passes,
  the pending request settles, and the audio element reports on its playback
  (\<open>play()\<close> settles, \<open>onended\<close>, \<open>onerror\<close>). Each event runs the callback the code
  registered for it, to its end. The state holds one recorder, the one made by the
  latest \<open>startRecording\<close>; in the states the component reaches a recorder is never
  made while another one is recording.
\<close>

datatype event =
    Mount | Unmount
  | Frame "real list"
  | MicData blob
  | Elapse nat
  | Response fetch_outcome
  | PlayStarted | PlayRejected | PlayEnded | PlayError

definition resumeAfterPlayback :: "env \<Rightarrow> app_state \<Rightarrow> app_state" where
  "resumeAfterPlayback ev s = startListening ev (setStatusWithLog Waiting s)"

definition settlePlay :: "app_state \<Rightarrow> app_state" where
  "settlePlay s = s\<lparr>audioPlayerRef := map_option (\<lambda>a. a\<lparr>playPending := False\<rparr>) (audioPlayerRef s)\<rparr>"

definition fireTimer :: "app_state \<Rightarrow> app_state" where
  "fireTimer s =
     (case mediaRecorder s of
        None \<Rightarrow> s
      | Some r \<Rightarrow>
          (case timerDue r of
             None \<Rightarrow> s
           | Some t \<Rightarrow>
               if t \<le> now s
               then timeoutCallback (s\<lparr>mediaRecorder := Some (r\<lparr>timerDue := None\<rparr>)\<rparr>)
               else s))"

fun step :: "env \<Rightarrow> event \<Rightarrow> app_state \<Rightarrow> app_state" where
  "step ev Mount s = startListening ev (s\<lparr>status := Waiting\<rparr>)"
| "step ev Unmount s = logged (hardStopAudio ev (stopListening s))"
| "step ev (Frame inputData) s =
     (if 0 < liveProcessors s then snd (onaudioprocess ev handlerStatus inputData s) else s)"
| "step ev (MicData d) s =
     (case mediaRecorder s of
        None \<Rightarrow> s
      | Some r \<Rightarrow>
          if rstate r = Recording
          then s\<lparr>mediaRecorder := Some (r\<lparr>captured := captured r @ d\<rparr>)\<rparr>
          else s)"
| "step ev (Elapse n) s = fireTimer (s\<lparr>now := now s + n\<rparr>)"
| "step ev (Response r) s =
     (if pendingRequest s \<noteq> None then logged (onstop_resume ev r s) else s)"
| "step ev PlayStarted s = settlePlay s"
| "step ev PlayRejected s =
     (case audioPlayerRef s of
        None \<Rightarrow> s
      | Some a \<Rightarrow> if playPending a then resumeAfterPlayback ev (settlePlay s) else s)"
| "step ev PlayEnded s =
     (case audioPlayerRef s of
        None \<Rightarrow> s
      | Some a \<Rightarrow> if onended a then resumeAfterPlayback ev s else s)"
| "step ev PlayError s =
     (case audioPlayerRef s of
        None \<Rightarrow> s
      | Some a \<Rightarrow> if onerror a then resumeAfterPlayback ev s else s)"

definition run :: "(env \<times> event) list \<Rightarrow> app_state \<Rightarrow> app_state" where
  "run sched s = foldl (\<lambda>s (ev, e). step ev e s) s sched"

definition freshAudio :: audio_el where
  "freshAudio = \<lparr> paused = True, currentTime = 0, src = NoSrc, onended = False,
     onerror = False, onpause = False, playPending = False \<rparr>"

text \<open>The component after its first render, before the effect hook has run.\<close>

definition initial :: app_state where
  "initial = \<lparr> messages = [], status = Waiting, loading = False, isRecording = False,
     isRecordingRef = False, barVolumes = replicate 8 (Val 0), isTTSStoppedRef = False,
     speechBufferCount = 0, audioPlayerRef = Some freshAudio, audioController = False,
     interceptCalls = 0, processorRef = False, liveProcessors = 0, audioChunksRef = [],
     mediaRecorder = None, pendingRequest = None, now = 0 \<rparr>"

section \<open>Schedules\<close>

text \<open>
  Of a schedule of recorder data and passing time: the time that passes and the data
  that arrives.
\<close>

fun elapseOf :: "event \<Rightarrow> nat" where
  "elapseOf (Elapse n) = n"
| "elapseOf _ = 0"

fun dataOf :: "event \<Rightarrow> blob" where
  "dataOf (MicData d) = d"
| "dataOf _ = []"

fun micOrTime :: "event \<Rightarrow> bool" where
  "micOrTime (MicData d) = True"
| "micOrTime (Elapse n) = True"
| "micOrTime _ = False"

definition elapsed :: "(env \<times> event) list \<Rightarrow> nat" where
  "elapsed sched = sum_list (map (\<lambda>x. elapseOf (snd x)) sched)"

definition micData :: "(env \<times> event) list \<Rightarrow> blob" where
  "micData sched = concat (map (\<lambda>x. dataOf (snd x)) sched)"

text \<open>
  A sample run: the component mounts, hears six loud buffers, records until the timer
  fires, gets a reply without audio, and does the same again. Both calls of
  \<open>startListening\<close> after the first reply install a processor, so one of them is still
  attached while the second request is pending.
\<close>

definition dSilent :: service_data where
  "dSilent = \<lparr> d_transcription = Some (js ''hello''), d_response = js ''hi there'',
     d_audio = None, d_files = None \<rparr>"

definition oneTurn :: "blob \<Rightarrow> (env \<times> event) list" where
  "oneTurn d = replicate 6 (no_faults, Frame [1]) @
          [(no_faults, MicData d), (no_faults, Elapse 5000)]"

definition twoTurns :: "(env \<times> event) list" where
  "twoTurns = (no_faults, Mount) # oneTurn [1, 2, 3] @ (no_faults, Response (Ok dSilent)) # oneTurn [4, 5]"

text \<open>
  Another sample run: after the first recording the reply comes with audio \<open>h\<close>.
\<close>

definition dReply :: "jsstring \<Rightarrow> service_data" where
  "dReply h = \<lparr> d_transcription = Some (js ''hello''), d_response = js ''hi there'',
     d_audio = Some h, d_files = None \<rparr>"

definition firstTurn :: "(env \<times> event) list" where
  "firstTurn = (no_faults, Mount) # oneTurn [1, 2, 3]"

definition replyWith :: "jsstring \<Rightarrow> (env \<times> event) list" where
  "replyWith h = firstTurn @ [(no_faults, Response (Ok (dReply h)))]"

section \<open>Predicates used in the proofs\<close>

text \<open>A recorder exists and is recording.\<close>

definition recording :: "app_state \<Rightarrow> bool" where
  "recording s = (case mediaRecorder s of None \<Rightarrow> False | Some r \<Rightarrow> rstate r = Recording)"

text \<open>
  What holds of every state the machine reaches: the status is never \<open>speaking\<close>
  between two events (the handler that resumes after the request sets it to \<open>waiting\<close>
  right after playback has been started), a pending request or a running recorder
  implies the flag \<open>isRecordingRef\<close>, and no recorder runs while a request is pending.
\<close>

definition inv :: "app_state \<Rightarrow> bool" where
  "inv s = (status s \<noteq> Speaking
          \<and> (pendingRequest s \<noteq> None \<longrightarrow> isRecordingRef s \<and> \<not> recording s)
          \<and> (recording s \<longrightarrow> isRecordingRef s))"

section \<open>The speech detector: properties\<close>

lemma fst_observeAll_Cons:
  "fst (observeAll ev (r # rs) s) =
     (if 0 < liveProcessors s
      then fst (detect ev handlerStatus r s)
             # fst (observeAll ev rs (snd (detect ev handlerStatus r s)))
      else NoEvent # fst (observeAll ev rs s))"
  by (simp add: case_prod_unfold Let_def)

lemma snd_observeAll_Cons:
  "snd (observeAll ev (r # rs) s) =
     (if 0 < liveProcessors s
      then snd (observeAll ev rs (snd (detect ev handlerStatus r s)))
      else snd (observeAll ev rs s))"
  by (simp add: case_prod_unfold Let_def)

lemma detect_quiet:
  "\<not> gt r SPEECH_THRESHOLD \<Longrightarrow> \<not> gt r INTERRUPT_THRESHOLD \<Longrightarrow>
   detect ev st r s = (NoEvent, s\<lparr>speechBufferCount := 0\<rparr>)"
  by (simp add: detect_def)

lemma gt_interrupt_imp_speech: "gt r INTERRUPT_THRESHOLD \<Longrightarrow> gt r SPEECH_THRESHOLD"
  by (cases r) (simp_all add: INTERRUPT_THRESHOLD_def SPEECH_THRESHOLD_def)

lemma observeAll_quiet:
  "\<forall>r\<in>set rs. \<not> gt r SPEECH_THRESHOLD \<Longrightarrow>
   fst (observeAll ev rs s) = replicate (length rs) NoEvent"
proof (induction rs arbitrary: s)
  case Nil
  then show ?case by simp
next
  case (Cons r rs)
  then have q: "\<not> gt r SPEECH_THRESHOLD" and nq: "\<not> gt r INTERRUPT_THRESHOLD"
    using gt_interrupt_imp_speech by auto
  show ?case using Cons
    by (simp add: fst_observeAll_Cons detect_quiet [OF q nq] del: observeAll.simps)
qed

lemma observeAll_quiet_state:
  "\<forall>r\<in>set rs. \<not> gt r SPEECH_THRESHOLD \<Longrightarrow> 0 < liveProcessors s \<Longrightarrow> rs \<noteq> [] \<Longrightarrow>
   snd (observeAll ev rs s) = s\<lparr>speechBufferCount := 0\<rparr>"
proof (induction rs arbitrary: s)
  case Nil
  then show ?case by simp
next
  case (Cons r rs)
  then have q: "\<not> gt r SPEECH_THRESHOLD" and nq: "\<not> gt r INTERRUPT_THRESHOLD"
    using gt_interrupt_imp_speech by auto
  show ?case
  proof (cases "rs = []")
    case True
    then show ?thesis using Cons.prems by (simp add: detect_quiet [OF q nq])
  next
    case False
    have "snd (observeAll ev rs (s\<lparr>speechBufferCount := 0\<rparr>)) = s\<lparr>speechBufferCount := 0\<rparr>"
      using Cons.IH [of "s\<lparr>speechBufferCount := 0\<rparr>"] Cons.prems False by simp
    then show ?thesis using Cons.prems
      by (simp add: snd_observeAll_Cons detect_quiet [OF q nq] del: observeAll.simps)
  qed
qed

lemma observeAll_append:
  "observeAll ev (xs @ ys) s =
     (fst (observeAll ev xs s) @ fst (observeAll ev ys (snd (observeAll ev xs s))),
      snd (observeAll ev ys (snd (observeAll ev xs s))))"
  by (induction xs arbitrary: s) (simp_all add: case_prod_unfold Let_def)

lemma detect_loud_below:
  assumes "gt r SPEECH_THRESHOLD"
    "speechBufferCount s + 1 < MIN_SPEECH_BUFFERS \<or> isRecordingRef s"
  shows "detect ev handlerStatus r s = (NoEvent, heard 1 s)"
  using assms by (auto simp add: detect_def heard_def handlerStatus_def)

lemma observeAll_loud_below:
  "\<forall>r\<in>set rs. gt r SPEECH_THRESHOLD \<Longrightarrow> 0 < liveProcessors s \<Longrightarrow>
   speechBufferCount s + length rs < MIN_SPEECH_BUFFERS \<Longrightarrow>
   observeAll ev rs s = (replicate (length rs) NoEvent, heard (length rs) s)"
proof (induction rs arbitrary: s)
  case Nil
  then show ?case by (simp add: heard_def)
next
  case (Cons r rs)
  have d: "detect ev handlerStatus r s = (NoEvent, heard 1 s)"
    using Cons.prems by (intro detect_loud_below) auto
  have h: "heard (length rs) (heard 1 s) = heard (Suc (length rs)) s"
    by (auto simp add: heard_def)
  have "observeAll ev rs (heard 1 s) = (replicate (length rs) NoEvent, heard (length rs) (heard 1 s))"
    using Cons.prems by (intro Cons.IH) (auto simp add: heard_def)
  then show ?case using Cons.prems d h by simp
qed

lemma startRecording_flag: "isRecordingRef (startRecording ev s)"
  by (simp add: startRecording_def Let_def)

lemma detect_trigger:
  assumes "gt r SPEECH_THRESHOLD"
    "MIN_SPEECH_BUFFERS \<le> speechBufferCount s + 1" "\<not> isRecordingRef s"
  shows "fst (detect ev handlerStatus r s) = SpeechStart"
    and "speechBufferCount (snd (detect ev handlerStatus r s)) = 0"
    and "isRecordingRef (snd (detect ev handlerStatus r s))"
  using assms by (simp_all add: detect_def startRecording_flag handlerStatus_def)

text \<open>
  Claim C4. For a sequence of RMS values that are all strictly below
  \<open>SPEECH_THRESHOLD\<close>, delivered to an attached handler, no observation yields
  \<open>SpeechStart\<close> or \<open>Interrupt\<close>, and after each observation (after the first \<open>k\<close>
  values, for every \<open>k\<close> from 1 to the length of the sequence) the counter is 0.
  This holds in every status and for every starting value of the counter.
\<close>

theorem quiet_stream_no_event:
  assumes "\<forall>r\<in>set rs. r < SPEECH_THRESHOLD" and "0 < liveProcessors s"
    and "0 < k" and "k \<le> length rs"
  shows "fst (observeAll ev (map Val rs) s) = replicate (length rs) NoEvent
       \<and> speechBufferCount (snd (observeAll ev (map Val (take k rs)) s)) = 0"
proof -
  have q: "\<forall>r\<in>set (map Val rs). \<not> gt r SPEECH_THRESHOLD"
    using assms(1) by auto
  have qk: "\<forall>r\<in>set (map Val (take k rs)). \<not> gt r SPEECH_THRESHOLD"
    using assms(1) by (force dest: in_set_takeD)
  have ne: "map Val (take k rs) \<noteq> []"
    using assms(3,4) by auto
  have "fst (observeAll ev (map Val rs) s) = replicate (length rs) NoEvent"
    using observeAll_quiet [OF q] by simp
  moreover have "snd (observeAll ev (map Val (take k rs)) s) = s\<lparr>speechBufferCount := 0\<rparr>"
    by (rule observeAll_quiet_state [OF qk assms(2) ne])
  ultimately show ?thesis by simp
qed

theorem quiet_stream_no_event_witness:
  "(1 / 100 :: real) < SPEECH_THRESHOLD \<and> (0 :: real) < SPEECH_THRESHOLD
   \<and> 0 < liveProcessors (initial\<lparr>liveProcessors := 1, speechBufferCount := 4\<rparr>)
   \<and> fst (observeAll no_faults (map Val [1 / 100, 0])
            (initial\<lparr>liveProcessors := 1, speechBufferCount := 4\<rparr>)) = [NoEvent, NoEvent]
   \<and> speechBufferCount (snd (observeAll no_faults (map Val (take 1 [1 / 100, 0]))
            (initial\<lparr>liveProcessors := 1, speechBufferCount := 4\<rparr>))) = 0"
proof -
  have a: "\<forall>r\<in>set [1 / 100, 0 :: real]. r < SPEECH_THRESHOLD"
    by (simp add: SPEECH_THRESHOLD_def)
  have b: "0 < liveProcessors (initial\<lparr>liveProcessors := 1, speechBufferCount := 4\<rparr>)"
    by simp
  show ?thesis
    using a b quiet_stream_no_event [OF a b, of 1 no_faults] by (simp add: numeral_2_eq_2)
qed

text \<open>
  Claim C3. \<open>MIN_SPEECH_BUFFERS\<close> is 6. With a fresh counter and no recording
  active, in every status, six values above \<open>SPEECH_THRESHOLD\<close> followed by values
  below it give exactly one \<open>SpeechStart\<close>, at the sixth observation: the first five
  observations and all later ones give no event. The counter is \<open>k\<close> after \<open>k < 6\<close>
  observations and 0 after the sixth.
\<close>

theorem speech_start_on_sixth_buffer:
  assumes len: "length loud = 6"
    and loud: "\<forall>r\<in>set loud. SPEECH_THRESHOLD < r"
    and quiet: "\<forall>r\<in>set quiet. r < SPEECH_THRESHOLD"
    and fresh: "speechBufferCount s = 0"
    and idle: "\<not> isRecordingRef s"
    and live: "0 < liveProcessors s"
  shows "fst (observeAll ev (map Val (loud @ quiet)) s)
           = replicate 5 NoEvent @ [SpeechStart] @ replicate (length quiet) NoEvent
       \<and> speechBufferCount (snd (observeAll ev (map Val loud) s)) = 0
       \<and> (\<forall>k<6. speechBufferCount (snd (observeAll ev (map Val (take k loud)) s)) = k)"
proof -
  obtain pre r where split: "loud = pre @ [r]" and lpre: "length pre = 5"
    using len by (cases loud rule: rev_cases) auto
  have lp: "\<forall>x\<in>set (map Val pre). gt x SPEECH_THRESHOLD" and lr: "gt (Val r) SPEECH_THRESHOLD"
    using loud split by auto
  have before: "observeAll ev (map Val (take k pre)) s = (replicate k NoEvent, heard k s)"
    if "k \<le> 5" for k
  proof -
    have "\<forall>x\<in>set (map Val (take k pre)). gt x SPEECH_THRESHOLD"
      using lp by (auto dest: in_set_takeD)
    moreover have "length (map Val (take k pre)) = k" using that lpre by simp
    ultimately show ?thesis
      using observeAll_loud_below [of "map Val (take k pre)" s ev] live fresh that
      by (simp add: MIN_SPEECH_BUFFERS_def)
  qed
  have five: "observeAll ev (map Val pre) s = (replicate 5 NoEvent, heard 5 s)"
    using before [of 5] lpre by simp
  have h5: "speechBufferCount (heard 5 s) = 5"
    "\<not> isRecordingRef (heard 5 s)" "0 < liveProcessors (heard 5 s)"
    using fresh idle live by (simp_all add: heard_def)
  have trig: "fst (detect ev handlerStatus (Val r) (heard 5 s)) = SpeechStart"
    "speechBufferCount (snd (detect ev handlerStatus (Val r) (heard 5 s))) = 0"
    using detect_trigger [OF lr _ h5(2)] h5(1) by (simp_all add: MIN_SPEECH_BUFFERS_def)
  have six: "fst (observeAll ev (map Val loud) s) = replicate 5 NoEvent @ [SpeechStart]"
    "speechBufferCount (snd (observeAll ev (map Val loud) s)) = 0"
    using five trig h5(3) by (simp_all add: split observeAll_append case_prod_unfold Let_def)
  have q: "\<forall>x\<in>set (map Val quiet). \<not> gt x SPEECH_THRESHOLD"
    using quiet by auto
  have all: "fst (observeAll ev (map Val (loud @ quiet)) s)
           = replicate 5 NoEvent @ [SpeechStart] @ replicate (length quiet) NoEvent"
    using six(1) observeAll_quiet [OF q] by (simp add: observeAll_append)
  have cnt: "speechBufferCount (snd (observeAll ev (map Val (take k loud)) s)) = k" if "k < 6" for k
  proof -
    have "take k loud = take k pre" using that lpre split by simp
    then show ?thesis using before [of k] that fresh by (simp add: heard_def)
  qed
  show ?thesis using all six(2) cnt by blast
qed

theorem speech_start_on_sixth_buffer_witness:
  "length (replicate 6 (5 / 100 :: real)) = 6
   \<and> SPEECH_THRESHOLD < (5 / 100 :: real)
   \<and> (1 / 100 :: real) < SPEECH_THRESHOLD \<and> (0 :: real) < SPEECH_THRESHOLD
   \<and> speechBufferCount (startListening no_faults initial) = 0
   \<and> \<not> isRecordingRef (startListening no_faults initial)
   \<and> 0 < liveProcessors (startListening no_faults initial)
   \<and> fst (observeAll no_faults (map Val (replicate 6 (5 / 100) @ [1 / 100, 0]))
            (startListening no_faults initial))
       = [NoEvent, NoEvent, NoEvent, NoEvent, NoEvent, SpeechStart, NoEvent, NoEvent]
   \<and> speechBufferCount (snd (observeAll no_faults (map Val (replicate 6 (5 / 100)))
            (startListening no_faults initial))) = 0"
proof -
  let ?s = "startListening no_faults initial"
  have a: "length (replicate 6 (5 / 100 :: real)) = 6" by simp
  have b: "\<forall>r\<in>set (replicate 6 (5 / 100 :: real)). SPEECH_THRESHOLD < r"
    by (simp add: SPEECH_THRESHOLD_def)
  have c: "\<forall>r\<in>set [1 / 100, 0 :: real]. r < SPEECH_THRESHOLD"
    by (simp add: SPEECH_THRESHOLD_def)
  have d: "speechBufferCount ?s = 0" "\<not> isRecordingRef ?s" "0 < liveProcessors ?s"
    by (simp_all add: startListening_def no_faults_def initial_def)
  have e: "replicate 5 NoEvent @ [SpeechStart] @ replicate (length [1 / 100, 0 :: real]) NoEvent
           = [NoEvent, NoEvent, NoEvent, NoEvent, NoEvent, SpeechStart, NoEvent, NoEvent]"
    by (simp add: numeral_eq_Suc)
  show ?thesis
    using a b c d e speech_start_on_sixth_buffer [OF a b c d, of no_faults] by simp
qed

section \<open>Playback and the round trip: properties\<close>

lemmas block_defs = andThen_def tryCatch_def tryFinally_def logged_def
lemmas el_defs = el_pause_def el_seek0_def el_set_src_def el_load_def el_play_def

lemma withPlayer_fields [simp]:
  "messages (withPlayer body s) = messages s"
  "status (withPlayer body s) = status s"
  "loading (withPlayer body s) = loading s"
  "isRecordingRef (withPlayer body s) = isRecordingRef s"
  "isTTSStoppedRef (withPlayer body s) = isTTSStoppedRef s"
  "speechBufferCount (withPlayer body s) = speechBufferCount s"
  "processorRef (withPlayer body s) = processorRef s"
  "liveProcessors (withPlayer body s) = liveProcessors s"
  "mediaRecorder (withPlayer body s) = mediaRecorder s"
  "pendingRequest (withPlayer body s) = pendingRequest s"
  "(audioPlayerRef (withPlayer body s) = None) = (audioPlayerRef s = None)"
  by (simp_all add: withPlayer_def split: option.splits)

lemma startListening_fields [simp]:
  "messages (startListening ev s) = messages s"
  "status (startListening ev s) = Waiting"
  "loading (startListening ev s) = loading s"
  "isRecordingRef (startListening ev s) = isRecordingRef s"
  "isTTSStoppedRef (startListening ev s) = isTTSStoppedRef s"
  "audioPlayerRef (startListening ev s) = audioPlayerRef s"
  "mediaRecorder (startListening ev s) = mediaRecorder s"
  "pendingRequest (startListening ev s) = pendingRequest s"
  by (simp_all add: startListening_def Let_def)

lemma playSteps_cases:
  "playSteps ev b a =
     (if srcThrows ev then Threw DOMException a
      else if playThrows ev then Threw DOMException (a\<lparr>src := BlobUrl b, onended := True, onerror := True\<rparr>)
      else Done (a\<lparr>src := BlobUrl b, onended := True, onerror := True, paused := False, playPending := True\<rparr>))"
  by (simp add: playSteps_def block_defs el_defs)

lemma playAudioResponse_decoded:
  assumes "hexToBinary audioHex = Inr binary"
  shows "\<exists>s'. playAudioResponse ev audioHex s = Done s' \<and> messages s' = messages s
           \<and> status s' = (if audioPlayerRef s \<noteq> None \<and> \<not> srcThrows ev \<and> \<not> playThrows ev
                           then Speaking else Waiting)"
  using assms
  by (cases "audioPlayerRef s")
     (auto simp add: playAudioResponse_def Let_def setStatusWithLog_def tryCatch_def onPlayer_def
        playSteps_cases withPlayer_def)

lemma playAudioResponse_failed:
  assumes "hexToBinary audioHex = Inl e"
  shows "\<exists>s'. playAudioResponse ev audioHex s = Done s' \<and> messages s' = messages s
           \<and> status s' = Waiting"
  using assms
  by (simp add: playAudioResponse_def Let_def setStatusWithLog_def tryCatch_def)

lemma playAudioResponse_Done:
  "\<exists>s'. playAudioResponse ev audioHex s = Done s' \<and> messages s' = messages s"
  using playAudioResponse_decoded [of audioHex _ ev s] playAudioResponse_failed [of audioHex _ ev s]
  by (cases "hexToBinary audioHex") blast+

text \<open>On a pair of hex digits the decoder gives the byte the pair denotes.\<close>

lemma hexDigit_range:
  "hexDigit c = Some x \<Longrightarrow> (0x30 \<le> c \<and> c \<le> 0x39) \<or> (0x61 \<le> c \<and> c \<le> 0x66) \<or> (0x41 \<le> c \<and> c \<le> 0x46)"
  by (auto simp add: hexDigit_def split: if_splits)

lemma hexDigit_plain:
  assumes "hexDigit c = Some x"
  shows "\<not> isTrimmed c" "c \<noteq> 0x2D" "c \<noteq> 0x2B" "c \<noteq> 0x78" "c \<noteq> 0x58" "isHexDigit c"
  using hexDigit_range [OF assms] assms
  by (auto simp add: isTrimmed_def isLineTerminator_def isHexDigit_def)

lemma parseInt16_pair:
  assumes "hexDigit a = Some x" "hexDigit b = Some y"
  shows "parseInt16 [a, b] = Some (int (16 * x + y))"
  using assms hexDigit_plain [OF assms(1)] hexDigit_plain [OF assms(2)]
  by (simp add: parseInt16_def Let_def)

lemma matchChunks_nonempty:
  "\<exists>c\<in>set h. \<not> isLineTerminator c \<Longrightarrow> matchChunks h \<noteq> []"
  by (induction h rule: matchChunks.induct) auto

lemma matchChunks_length:
  "\<forall>c\<in>set h. \<not> isLineTerminator c \<Longrightarrow> length (matchChunks h) = (length h + 1) div 2"
  by (induction h rule: matchChunks.induct) auto

lemma matchChunks_concat:
  "\<forall>c\<in>set h. \<not> isLineTerminator c \<Longrightarrow> concat (matchChunks h) = h"
  by (induction h rule: matchChunks.induct) auto

lemma hexToBinary_total:
  "\<exists>c\<in>set h. \<not> isLineTerminator c \<Longrightarrow>
   hexToBinary h = Inr (map (\<lambda>byte. toUint8 (parseInt16 byte)) (matchChunks h))"
  using matchChunks_nonempty [of h] by (simp add: hexToBinary_def jsMatch_def Let_def)

lemma processAudio_ok_audio:
  assumes "d_audio d = Some h" "h \<noteq> []"
  shows "processAudio ev (Ok d) b s =
     tryFinally (playAudioResponse ev h
        (s\<lparr>loading := True, pendingRequest := None,
           messages := messages s @ [userMessage d, assistantMessage d]\<rparr>))
       (\<lambda>s. s\<lparr>loading := False\<rparr>)"
proof -
  obtain s' where "playAudioResponse ev h
        (s\<lparr>loading := True, pendingRequest := None,
           messages := messages s @ [userMessage d, assistantMessage d]\<rparr>) = Done s'"
    using playAudioResponse_Done by blast
  then show ?thesis using assms
    by (simp add: processAudio_def processAudio_resume_def processAudio_begin_def
        processAudio_try_def truthy_def Let_def tryCatch_def)
qed

lemma processAudio_ok_silent:
  assumes "\<not> truthy (d_audio d)"
  shows "processAudio ev (Ok d) b s =
     Done ((startListening ev
        (s\<lparr>loading := True, pendingRequest := None,
           messages := messages s @ [userMessage d, assistantMessage d]\<rparr>))\<lparr>loading := False\<rparr>)"
  using assms
  by (simp add: processAudio_def processAudio_resume_def processAudio_begin_def
        processAudio_try_def Let_def tryCatch_def tryFinally_def)

lemma processAudio_failed:
  assumes "r = FetchRejected \<or> r = HttpNotOk \<or> r = JsonRejected"
  shows "processAudio ev r b s =
     Done ((startListening ev
        (s\<lparr>loading := True, pendingRequest := None,
           messages := messages s @ [fallbackMessage]\<rparr>))\<lparr>loading := False\<rparr>)"
  using assms
  by (auto simp add: processAudio_def processAudio_resume_def processAudio_begin_def
        processAudio_try_def Let_def tryCatch_def tryFinally_def)

lemma processAudio_ok_messages:
  "\<exists>s'. processAudio ev (Ok d) b s = Done s'
        \<and> messages s' = messages s @ [userMessage d, assistantMessage d]"
proof (cases "truthy (d_audio d)")
  case True
  then obtain h where h: "d_audio d = Some h" "h \<noteq> []"
    by (auto simp add: truthy_def split: option.splits)
  obtain s' where "playAudioResponse ev h
        (s\<lparr>loading := True, pendingRequest := None,
           messages := messages s @ [userMessage d, assistantMessage d]\<rparr>) = Done s'"
     "messages s' = messages s @ [userMessage d, assistantMessage d]"
    using playAudioResponse_Done [of ev h] by fastforce
  then show ?thesis by (simp add: processAudio_ok_audio [OF h] tryFinally_def)
next
  case False
  then show ?thesis by (simp add: processAudio_ok_silent)
qed

text \<open>
  Claim C9, as amended. A completed call of \<open>processAudio\<close> never throws. On a
  successful reply the log grows by exactly two messages, appended together: a user
  message whose content is the returned transcription, or the literal
  \<open>Transcription not available\<close> when the transcription is absent or the empty string,
  and then an assistant message whose content is the reply text. On a failed call
  (rejected fetch, status not ok, unreadable body) it grows by exactly the one
  assistant fallback message.
\<close>

theorem processAudio_appends:
  "(\<exists>s'. processAudio ev (Ok d) audioBlob s = Done s'
      \<and> messages s' = messages s @
          [\<lparr> role = User,
              content = (case d_transcription d of
                           None \<Rightarrow> js ''Transcription not available''
                         | Some t \<Rightarrow> if t = [] then js ''Transcription not available'' else t),
              audio = None, transcription = d_transcription d, files = d_files d \<rparr>,
           \<lparr> role = Assistant, content = d_response d, audio = d_audio d,
              transcription = None, files = None \<rparr>])
   \<and> (\<exists>s'. processAudio ev FetchRejected audioBlob s = Done s'
      \<and> messages s' = messages s @
          [\<lparr> role = Assistant,
              content = js ''Sorry, there was an error processing your message.'',
              audio = None, transcription = None, files = None \<rparr>])
   \<and> (\<exists>s'. processAudio ev HttpNotOk audioBlob s = Done s'
      \<and> messages s' = messages s @
          [\<lparr> role = Assistant,
              content = js ''Sorry, there was an error processing your message.'',
              audio = None, transcription = None, files = None \<rparr>])
   \<and> (\<exists>s'. processAudio ev JsonRejected audioBlob s = Done s'
      \<and> messages s' = messages s @
          [\<lparr> role = Assistant,
              content = js ''Sorry, there was an error processing your message.'',
              audio = None, transcription = None, files = None \<rparr>])"
proof -
  have u: "userMessage d = \<lparr> role = User,
              content = (case d_transcription d of
                           None \<Rightarrow> js ''Transcription not available''
                         | Some t \<Rightarrow> if t = [] then js ''Transcription not available'' else t),
              audio = None, transcription = d_transcription d, files = d_files d \<rparr>"
    by (simp add: userMessage_def orElse_def)
  have a: "assistantMessage d = \<lparr> role = Assistant, content = d_response d, audio = d_audio d,
              transcription = None, files = None \<rparr>"
    by (simp add: assistantMessage_def)
  have ok: "\<exists>s'. processAudio ev (Ok d) audioBlob s = Done s'
        \<and> messages s' = messages s @ [userMessage d, assistantMessage d]"
    by (rule processAudio_ok_messages)
  have bad: "\<exists>s'. processAudio ev r audioBlob s = Done s'
      \<and> messages s' = messages s @ [fallbackMessage]"
    if "r = FetchRejected \<or> r = HttpNotOk \<or> r = JsonRejected" for r
    using processAudio_failed [OF that] by simp
  show ?thesis
    using ok bad [of FetchRejected] bad [of HttpNotOk] bad [of JsonRejected]
    unfolding u a fallbackMessage_def by simp
qed

text \<open>
  Claim C9 as stated says that the content is the returned transcription unless the
  field is absent. A reply whose transcription is present and empty gets the literal.
\<close>

theorem empty_transcription_gets_default:
  "map content (messages (logged (processAudio no_faults
       (Ok \<lparr> d_transcription = Some [], d_response = js ''hi'', d_audio = None, d_files = None \<rparr>)
       [] initial)))
     = [js ''Transcription not available'', js ''hi'']
   \<and> js ''Transcription not available'' \<noteq> []"
  by (simp add: processAudio_ok_silent truthy_def logged_def userMessage_def assistantMessage_def
      orElse_def initial_def js_def)

lemma startListening_eq:
  "startListening ev s =
     (if micDenied ev then s\<lparr>status := Waiting\<rparr>
      else s\<lparr>status := Waiting, processorRef := True,
              liveProcessors := liveProcessors s + 1, speechBufferCount := 0\<rparr>)"
  by (simp add: startListening_def Let_def)


lemma matchChunks_nth:
  "\<forall>c\<in>set h. \<not> isLineTerminator c \<Longrightarrow> i < (length h + 1) div 2 \<Longrightarrow>
   matchChunks h ! i = take 2 (drop (2 * i) h)"
proof (induction h arbitrary: i rule: matchChunks.induct)
  case 1
  then show ?case by simp
next
  case (2 a)
  then show ?case by simp
next
  case (3 a b rest)
  show ?case
  proof (cases i)
    case 0
    then show ?thesis using "3.prems" by simp
  next
    case (Suc k)
    have "matchChunks rest ! k = take 2 (drop (2 * k) rest)"
      using "3.prems" Suc by (intro "3.IH"(3)) auto
    then show ?thesis using "3.prems" Suc by simp
  qed
qed

lemma playAudioResponse_plays:
  assumes "hexToBinary audioHex = Inr binary" "audioPlayerRef s = Some a"
    "\<not> pauseThrows ev" "\<not> seekThrows ev" "\<not> srcThrows ev" "\<not> playThrows ev"
  shows "playAudioResponse ev audioHex s =
     Done (s\<lparr>status := Speaking, isTTSStoppedRef := False,
             audioPlayerRef := Some (a\<lparr>paused := False, currentTime := 0, src := BlobUrl binary,
                                        onended := True, onerror := True, playPending := True\<rparr>)\<rparr>)"
  using assms
  by (simp add: playAudioResponse_def Let_def setStatusWithLog_def tryCatch_def onPlayer_def
      playSteps_cases withPlayer_def resetSteps_def andThen_def el_defs logged_def)

lemma playAudioResponse_listening:
  "\<exists>s'. playAudioResponse ev audioHex s = Done s' \<and> messages s' = messages s
     \<and> pendingRequest s' = pendingRequest s
     \<and> liveProcessors s \<le> liveProcessors s'"
  by (cases "audioPlayerRef s"; cases "hexToBinary audioHex")
     (auto simp add: playAudioResponse_def Let_def setStatusWithLog_def tryCatch_def onPlayer_def
        playSteps_cases withPlayer_def startListening_eq)

text \<open>The sample runs, evaluated.\<close>

lemma rms_one: "rmsOf [1] = Val 1"
  by (simp add: rmsOf_def meanSquare_def)

lemma run_firstTurn:
  "run firstTurn initial =
     \<lparr> messages = [], status = Processing,
       loading = True, isRecording = True, isRecordingRef = True, barVolumes = bandsOf [1],
       isTTSStoppedRef = False, speechBufferCount = 0, audioPlayerRef = Some freshAudio,
       audioController = False, interceptCalls = 0, processorRef = False, liveProcessors = 0,
       audioChunksRef = [[1, 2, 3]],
       mediaRecorder = Some \<lparr> rstate = Inactive, captured = [1, 2, 3], timerDue = None \<rparr>,
       pendingRequest = Some [1, 2, 3], now = 5000 \<rparr>"
  by (simp add: firstTurn_def oneTurn_def run_def onaudioprocess_def detect_def startListening_def
      stopListening_def startRecording_def withPlayer_def stopSteps_def andThen_def el_defs
      logged_def fireTimer_def
      timeoutCallback_def mediaRecorder_stop_def onstop_begin_def ondataavailable_def
      processAudio_begin_def Let_def SPEECH_THRESHOLD_def INTERRUPT_THRESHOLD_def
      MIN_SPEECH_BUFFERS_def rms_one initial_def
      no_faults_def freshAudio_def handlerStatus_def numeral_eq_Suc)

lemma run_replyWith:
  assumes "hexToBinary h = Inr b" "h \<noteq> []"
  shows "run (replyWith h) initial =
     \<lparr> messages = [userMessage (dReply h), assistantMessage (dReply h)], status = Waiting,
       loading = False, isRecording = False, isRecordingRef = False, barVolumes = bandsOf [1],
       isTTSStoppedRef = False, speechBufferCount = 0,
       audioPlayerRef = Some \<lparr> paused = False, currentTime = 0, src = BlobUrl b,
          onended = True, onerror = True, onpause = False, playPending = True \<rparr>,
       audioController = False, interceptCalls = 0, processorRef = True, liveProcessors = 1,
       audioChunksRef = [[1, 2, 3]],
       mediaRecorder = Some \<lparr> rstate = Inactive, captured = [1, 2, 3], timerDue = None \<rparr>,
       pendingRequest = None, now = 5000 \<rparr>"
proof -
  let ?p = "run firstTurn initial"
  let ?s1 = "?p\<lparr>pendingRequest := None,
               messages := messages ?p @ [userMessage (dReply h), assistantMessage (dReply h)]\<rparr>"
  have el: "audioPlayerRef ?s1 = Some freshAudio" by (simp add: run_firstTurn)
  have nf: "\<not> pauseThrows no_faults" "\<not> seekThrows no_faults" "\<not> srcThrows no_faults"
    "\<not> playThrows no_faults" "\<not> micDenied no_faults"
    by (simp_all add: no_faults_def)
  have play: "playAudioResponse no_faults h ?s1 =
     Done (?s1\<lparr>status := Speaking, isTTSStoppedRef := False,
             audioPlayerRef := Some (freshAudio\<lparr>paused := False, currentTime := 0,
                src := BlobUrl b, onended := True, onerror := True, playPending := True\<rparr>)\<rparr>)"
    by (rule playAudioResponse_plays [OF assms(1) el nf(1-4)])
  have "run (replyWith h) initial = step no_faults (Response (Ok (dReply h))) ?p"
    by (simp add: replyWith_def run_def)
  also have "\<dots> = logged (onstop_resume no_faults (Ok (dReply h)) ?p)"
    by (simp add: run_firstTurn)
  also have "\<dots> = startListening no_faults
       (?s1\<lparr>status := Speaking, isTTSStoppedRef := False,
             audioPlayerRef := Some (freshAudio\<lparr>paused := False, currentTime := 0,
                src := BlobUrl b, onended := True, onerror := True, playPending := True\<rparr>),
             loading := False, isRecording := False, isRecordingRef := False,
             status := Waiting\<rparr>)"
    using play assms(2)
    by (simp add: onstop_resume_def processAudio_resume_def processAudio_try_def Let_def
        tryCatch_def tryFinally_def andThen_def logged_def truthy_def dReply_def)
  also have "\<dots> = \<lparr> messages = [userMessage (dReply h), assistantMessage (dReply h)],
       status = Waiting,
       loading = False, isRecording = False, isRecordingRef = False, barVolumes = bandsOf [1],
       isTTSStoppedRef = False, speechBufferCount = 0,
       audioPlayerRef = Some \<lparr> paused = False, currentTime = 0, src = BlobUrl b,
          onended = True, onerror = True, onpause = False, playPending = True \<rparr>,
       audioController = False, interceptCalls = 0, processorRef = True, liveProcessors = 1,
       audioChunksRef = [[1, 2, 3]],
       mediaRecorder = Some \<lparr> rstate = Inactive, captured = [1, 2, 3], timerDue = None \<rparr>,
       pendingRequest = None, now = 5000 \<rparr>"
    using nf(5) by (simp add: run_firstTurn startListening_eq freshAudio_def)
  finally show ?thesis .
qed

lemma hex_abc: "hexToBinary (js ''abc'') = Inr [0xAB, 0x0C]"
  by (simp add: hexToBinary_def jsMatch_def js_def isLineTerminator_def parseInt16_def
      isTrimmed_def isHexDigit_def hexDigit_def toUint8_def)

lemma hex_zz: "hexToBinary (js ''zz'') = Inr [0]"
  by (simp add: hexToBinary_def jsMatch_def js_def isLineTerminator_def parseInt16_def
      isTrimmed_def isHexDigit_def hexDigit_def toUint8_def)

lemma hex_riff: "hexToBinary (js ''52494646'') = Inr [0x52, 0x49, 0x46, 0x46]"
  by (simp add: hexToBinary_def jsMatch_def js_def isLineTerminator_def parseInt16_def
      isTrimmed_def isHexDigit_def hexDigit_def toUint8_def)

lemma matchChunks_none:
  "\<forall>c\<in>set h. isLineTerminator c \<Longrightarrow> matchChunks h = []"
  by (induction h rule: matchChunks.induct) auto

text \<open>
  Claim C2, as amended. The decoder validates nothing and there is no
  \<open>MalformedAudioEncodingError\<close>. Every string with at least one code unit that is not a
  line terminator, of odd length or with characters that are no hex digits as well, is
  decoded without an error: it is cut into chunks, and each chunk becomes the byte that
  \<open>parseInt(chunk, 16)\<close> gives, 0 for \<open>NaN\<close>; for a string without line terminators
  chunk \<open>i\<close> is the two code units from position \<open>2 i\<close> on, or the one that is left
  there, so the last character of an odd length is decoded alone. Only a string of line
  terminators alone does not decode: the match is \<open>null\<close> and the \<open>TypeError\<close> is caught
  in \<open>playAudioResponse\<close>. For every audio string the round trip then ends listening
  and never crashes: the handler that sent the request ends without an exception, with
  the user message and the assistant message of the reply appended (so no fallback
  message), the request settled and the flag cleared, the status \<open>waiting\<close>, and, the
  microphone granted, a processor attached with the counter at 0. When the string
  decodes, a player whose calls do not throw has been given exactly the decoded bytes
  and is playing them, with its handlers installed, and exactly one processor has been
  added.
\<close>

theorem malformed_hex_is_played:
  assumes "d_audio d = Some audioHex"
  shows "((\<exists>c\<in>set audioHex. \<not> isLineTerminator c) \<longrightarrow>
          hexToBinary audioHex =
            Inr (map (\<lambda>byte. toUint8 (parseInt16 byte)) (matchChunks audioHex)))
     \<and> ((\<forall>c\<in>set audioHex. isLineTerminator c) \<longrightarrow> hexToBinary audioHex = Inl TypeError)
     \<and> ((\<forall>c\<in>set audioHex. \<not> isLineTerminator c) \<longrightarrow>
          length (matchChunks audioHex) = (length audioHex + 1) div 2
          \<and> (\<forall>i < (length audioHex + 1) div 2.
                matchChunks audioHex ! i = take 2 (drop (2 * i) audioHex)))
     \<and> (\<exists>s'. onstop_resume ev (Ok d) s = Done s'
          \<and> messages s' = messages s @ [userMessage d, assistantMessage d]
          \<and> status s' = Waiting \<and> \<not> isRecordingRef s' \<and> pendingRequest s' = None
          \<and> (\<not> micDenied ev \<longrightarrow>
                processorRef s' \<and> 0 < liveProcessors s' \<and> speechBufferCount s' = 0)
          \<and> (\<forall>a. (\<exists>c\<in>set audioHex. \<not> isLineTerminator c) \<and> audioPlayerRef s = Some a
                     \<and> \<not> pauseThrows ev \<and> \<not> seekThrows ev
                     \<and> \<not> srcThrows ev \<and> \<not> playThrows ev \<longrightarrow>
                audioPlayerRef s' =
                  Some (a\<lparr>paused := False, currentTime := 0,
                          src := BlobUrl (map (\<lambda>byte. toUint8 (parseInt16 byte))
                                            (matchChunks audioHex)),
                          onended := True, onerror := True, playPending := True\<rparr>)
                \<and> liveProcessors s' = liveProcessors s + (if micDenied ev then 0 else 1)))"
proof -
  let ?bytes = "map (\<lambda>byte. toUint8 (parseInt16 byte)) (matchChunks audioHex)"
  have dec: "hexToBinary audioHex = Inr ?bytes" if "\<exists>c\<in>set audioHex. \<not> isLineTerminator c"
    by (rule hexToBinary_total [OF that])
  have fail: "hexToBinary audioHex = Inl TypeError" if "\<forall>c\<in>set audioHex. isLineTerminator c"
    using matchChunks_none [OF that] by (simp add: hexToBinary_def jsMatch_def)
  let ?s1 = "s\<lparr>pendingRequest := None,
               messages := messages s @ [userMessage d, assistantMessage d]\<rparr>"
  obtain p where p: "processAudio_try ev (Ok d) (s\<lparr>pendingRequest := None\<rparr>) = Done p"
      "messages p = messages ?s1" "pendingRequest p = None"
      "liveProcessors s \<le> liveProcessors p"
      "audioHex \<noteq> [] \<longrightarrow> playAudioResponse ev audioHex ?s1 = Done p"
  proof (cases "audioHex = []")
    case True
    then show ?thesis using that [of "startListening ev ?s1"] assms
      by (simp add: processAudio_try_def truthy_def Let_def startListening_eq)
  next
    case False
    obtain q where q: "playAudioResponse ev audioHex ?s1 = Done q"
      "messages q = messages ?s1" "pendingRequest q = pendingRequest ?s1"
      "liveProcessors ?s1 \<le> liveProcessors q"
      using playAudioResponse_listening [of ev audioHex ?s1] by blast
    then show ?thesis using that [of q] assms False
      by (simp add: processAudio_try_def truthy_def Let_def)
  qed
  let ?s' = "startListening ev (p\<lparr>loading := False, isRecording := False,
                                   isRecordingRef := False, status := Waiting\<rparr>)"
  have r: "onstop_resume ev (Ok d) s = Done ?s'"
    using p(1)
    by (simp add: onstop_resume_def processAudio_resume_def tryCatch_def tryFinally_def
        andThen_def)
  have basic: "messages ?s' = messages s @ [userMessage d, assistantMessage d]"
      "status ?s' = Waiting" "\<not> isRecordingRef ?s'" "pendingRequest ?s' = None"
    using p(2,3) by simp_all
  have mic: "processorRef ?s' \<and> 0 < liveProcessors ?s' \<and> speechBufferCount ?s' = 0"
    if "\<not> micDenied ev"
    using that by (simp add: startListening_eq)
  have el: "audioPlayerRef ?s' =
                  Some (a\<lparr>paused := False, currentTime := 0, src := BlobUrl ?bytes,
                          onended := True, onerror := True, playPending := True\<rparr>)
            \<and> liveProcessors ?s' = liveProcessors s + (if micDenied ev then 0 else 1)"
    if h: "(\<exists>c\<in>set audioHex. \<not> isLineTerminator c) \<and> audioPlayerRef s = Some a
          \<and> \<not> pauseThrows ev \<and> \<not> seekThrows ev
          \<and> \<not> srcThrows ev \<and> \<not> playThrows ev" for a
  proof -
    have ne: "audioHex \<noteq> []" using h by auto
    have "playAudioResponse ev audioHex ?s1 =
       Done (?s1\<lparr>status := Speaking, isTTSStoppedRef := False,
             audioPlayerRef := Some (a\<lparr>paused := False, currentTime := 0, src := BlobUrl ?bytes,
                                        onended := True, onerror := True, playPending := True\<rparr>)\<rparr>)"
      using h by (intro playAudioResponse_plays [OF dec]) simp_all
    then have "p = ?s1\<lparr>status := Speaking, isTTSStoppedRef := False,
             audioPlayerRef := Some (a\<lparr>paused := False, currentTime := 0, src := BlobUrl ?bytes,
                                        onended := True, onerror := True, playPending := True\<rparr>)\<rparr>"
      using p(5) ne by simp
    then show ?thesis by (simp add: startListening_eq)
  qed
  have chunks: "length (matchChunks audioHex) = (length audioHex + 1) div 2
          \<and> (\<forall>i < (length audioHex + 1) div 2.
                matchChunks audioHex ! i = take 2 (drop (2 * i) audioHex))"
    if "\<forall>c\<in>set audioHex. \<not> isLineTerminator c"
    using that matchChunks_length [of audioHex] matchChunks_nth [of audioHex] by blast
  have last: "\<exists>s'. onstop_resume ev (Ok d) s = Done s'
          \<and> messages s' = messages s @ [userMessage d, assistantMessage d]
          \<and> status s' = Waiting \<and> \<not> isRecordingRef s' \<and> pendingRequest s' = None
          \<and> (\<not> micDenied ev \<longrightarrow>
                processorRef s' \<and> 0 < liveProcessors s' \<and> speechBufferCount s' = 0)
          \<and> (\<forall>a. (\<exists>c\<in>set audioHex. \<not> isLineTerminator c) \<and> audioPlayerRef s = Some a
                     \<and> \<not> pauseThrows ev \<and> \<not> seekThrows ev
                     \<and> \<not> srcThrows ev \<and> \<not> playThrows ev \<longrightarrow>
                audioPlayerRef s' =
                  Some (a\<lparr>paused := False, currentTime := 0, src := BlobUrl ?bytes,
                          onended := True, onerror := True, playPending := True\<rparr>)
                \<and> liveProcessors s' = liveProcessors s + (if micDenied ev then 0 else 1))"
    using r basic mic el by (intro exI [of _ ?s']) blast
  show ?thesis using dec fail chunks last by blast
qed

text \<open>
  Claim C2 as stated says that decoding an odd-length or non-hex string fails and that
  the log gets a fallback message. \<open>abc\<close> decodes to the bytes AB 0C and \<open>zz\<close> to the
  byte 00; after the first recording, the reply with audio \<open>abc\<close> leaves the
  transcription and the reply text in the log, and the player with the two bytes.
\<close>

theorem odd_or_nonhex_is_accepted:
  "hexToBinary (js ''abc'') = Inr [0xAB, 0x0C]
   \<and> hexToBinary (js ''zz'') = Inr [0]
   \<and> map role (messages (run (replyWith (js ''abc'')) initial)) = [User, Assistant]
   \<and> map content (messages (run (replyWith (js ''abc'')) initial))
         = [js ''hello'', js ''hi there'']
   \<and> map_option src (audioPlayerRef (run (replyWith (js ''abc'')) initial))
         = Some (BlobUrl [0xAB, 0x0C])"
proof -
  have ne: "js ''abc'' \<noteq> []" by (simp add: js_def)
  note r = run_replyWith [OF hex_abc ne]
  have m: "map role (messages (run (replyWith (js ''abc'')) initial)) = [User, Assistant]"
    "map content (messages (run (replyWith (js ''abc'')) initial))
         = [js ''hello'', js ''hi there'']"
    unfolding r by (simp_all add: userMessage_def assistantMessage_def dReply_def orElse_def js_def)
  have e: "map_option src (audioPlayerRef (run (replyWith (js ''abc'')) initial))
         = Some (BlobUrl [0xAB, 0x0C])"
    unfolding r by simp
  show ?thesis using hex_abc hex_zz m e by blast
qed

theorem malformed_hex_is_played_witness:
  "hexToBinary (js ''abc'') = Inr [0xAB, 0x0C]
   \<and> length (matchChunks (js ''abc'')) = 2
   \<and> matchChunks (js ''abc'') ! 1 = js ''c''
   \<and> (\<exists>s'. onstop_resume no_faults (Ok (dReply (js ''abc''))) (run firstTurn initial) = Done s'
        \<and> map content (messages s') = [js ''hello'', js ''hi there'']
        \<and> status s' = Waiting \<and> processorRef s' \<and> liveProcessors s' = 1
        \<and> map_option src (audioPlayerRef s') = Some (BlobUrl [0xAB, 0x0C])
        \<and> map_option paused (audioPlayerRef s') = Some False)"
proof -
  let ?p = "run firstTurn initial"
  let ?d = "dReply (js ''abc'')"
  have a: "\<exists>c\<in>set (js ''abc''). \<not> isLineTerminator c"
    by (simp add: js_def isLineTerminator_def)
  have a': "\<forall>c\<in>set (js ''abc''). \<not> isLineTerminator c"
    by (simp add: js_def isLineTerminator_def)
  have b: "d_audio ?d = Some (js ''abc'')" by (simp add: dReply_def)
  have nf: "\<not> pauseThrows no_faults \<and> \<not> seekThrows no_faults \<and> \<not> srcThrows no_faults
    \<and> \<not> playThrows no_faults" "\<not> micDenied no_faults"
    by (simp_all add: no_faults_def)
  have st: "audioPlayerRef ?p = Some freshAudio" "messages ?p = []" "liveProcessors ?p = 0"
    by (simp_all add: run_firstTurn)
  have m: "map content [userMessage ?d, assistantMessage ?d] = [js ''hello'', js ''hi there'']"
    by (simp add: userMessage_def assistantMessage_def dReply_def orElse_def js_def)
  have l3: "length (js ''abc'') = 3" by (simp add: js_def)
  note t = malformed_hex_is_played [OF b, of no_faults ?p]
  have bytes: "map (\<lambda>byte. toUint8 (parseInt16 byte)) (matchChunks (js ''abc'')) = [0xAB, 0x0C]"
    using t [THEN conjunct1] a hex_abc by simp
  have ch: "length (matchChunks (js ''abc'')) = 2" "matchChunks (js ''abc'') ! 1 = js ''c''"
    using t [THEN conjunct2, THEN conjunct2, THEN conjunct1] a' l3 by (simp_all add: js_def)
  obtain s' where s': "onstop_resume no_faults (Ok ?d) ?p = Done s'"
     "messages s' = messages ?p @ [userMessage ?d, assistantMessage ?d]"
     "status s' = Waiting"
     "\<not> micDenied no_faults \<longrightarrow>
                processorRef s' \<and> 0 < liveProcessors s' \<and> speechBufferCount s' = 0"
     "\<forall>a. (\<exists>c\<in>set (js ''abc''). \<not> isLineTerminator c) \<and> audioPlayerRef ?p = Some a
                     \<and> \<not> pauseThrows no_faults \<and> \<not> seekThrows no_faults
                     \<and> \<not> srcThrows no_faults \<and> \<not> playThrows no_faults \<longrightarrow>
                audioPlayerRef s' =
                  Some (a\<lparr>paused := False, currentTime := 0,
                          src := BlobUrl (map (\<lambda>byte. toUint8 (parseInt16 byte))
                                            (matchChunks (js ''abc''))),
                          onended := True, onerror := True, playPending := True\<rparr>)
                \<and> liveProcessors s' = liveProcessors ?p + (if micDenied no_faults then 0 else 1)"
    using t [THEN conjunct2, THEN conjunct2, THEN conjunct2] by blast
  have el: "audioPlayerRef s' =
                  Some (freshAudio\<lparr>paused := False, currentTime := 0,
                          src := BlobUrl [0xAB, 0x0C],
                          onended := True, onerror := True, playPending := True\<rparr>)"
       "liveProcessors s' = 1"
    using s'(5) st(1,3) nf bytes a by simp_all
  have 1: "map content (messages s') = [js ''hello'', js ''hi there'']"
    using s'(2) st(2) m by simp
  have 2: "processorRef s'" using s'(4) nf(2) by simp
  have 3: "map_option src (audioPlayerRef s') = Some (BlobUrl [0xAB, 0x0C])"
    "map_option paused (audioPlayerRef s') = Some False"
    using el(1) by simp_all
  show ?thesis
    by (intro conjI exI [of _ s']) (rule hex_abc ch s'(1) 1 s'(3) 2 el(2) 3)+
qed

section \<open>Interrupting the reply\<close>

lemma rms_single: "rmsOf [x] = Val \<bar>x\<bar>"
  by (simp add: rmsOf_def meanSquare_def not_less)

lemma rms_loud: "rmsOf [4 / 100] = Val (4 / 100)"
  by (simp add: rms_single)

text \<open>
  Claim C1. The claim fails on the code. The interrupt branch of the handler tests
  \<open>status === 'speaking'\<close>, but the handler's \<open>status\<close> is the constant of the first
  render, \<open>waiting\<close>, and the state itself is set back to \<open>waiting\<close> by the handler that
  sent the request, right after \<open>playAudioResponse\<close> has set \<open>speaking\<close>. So no buffer
  ever gives \<open>Interrupt\<close>, in any state. In the sample run the reply \<open>52494646\<close> is
  playing and a processor is attached; a single buffer of RMS 0.04, above
  \<open>INTERRUPT_THRESHOLD\<close>, gives no event, leaves the player playing and starts no
  recording: it counts as the first of six loud buffers, and the counter is 1, not 0.
\<close>

theorem no_interrupt_while_reply_plays:
  "fst (onaudioprocess ev handlerStatus inputData s) \<noteq> Interrupt
   \<and> status (run (replyWith (js ''52494646'')) initial) = Waiting
   \<and> liveProcessors (run (replyWith (js ''52494646'')) initial) = 1
   \<and> audioPlayerRef (run (replyWith (js ''52494646'')) initial) =
       Some \<lparr> paused = False, currentTime = 0, src = BlobUrl [0x52, 0x49, 0x46, 0x46],
          onended = True, onerror = True, onpause = False, playPending = True \<rparr>
   \<and> rmsOf [4 / 100] = Val (4 / 100)
   \<and> fst (onaudioprocess no_faults handlerStatus [4 / 100]
             (run (replyWith (js ''52494646'')) initial)) = NoEvent
   \<and> audioPlayerRef (step no_faults (Frame [4 / 100]) (run (replyWith (js ''52494646'')) initial))
       = audioPlayerRef (run (replyWith (js ''52494646'')) initial)
   \<and> mediaRecorder (step no_faults (Frame [4 / 100]) (run (replyWith (js ''52494646'')) initial))
       = mediaRecorder (run (replyWith (js ''52494646'')) initial)
   \<and> speechBufferCount
        (step no_faults (Frame [4 / 100]) (run (replyWith (js ''52494646'')) initial)) = 1"
proof -
  have ne: "js ''52494646'' \<noteq> []" by (simp add: js_def)
  note r = run_replyWith [OF hex_riff ne]
  have never: "fst (onaudioprocess ev handlerStatus inputData s) \<noteq> Interrupt"
    by (simp add: onaudioprocess_def detect_def handlerStatus_def Let_def)
  have here: "status (run (replyWith (js ''52494646'')) initial) = Waiting"
    "liveProcessors (run (replyWith (js ''52494646'')) initial) = 1"
    "audioPlayerRef (run (replyWith (js ''52494646'')) initial) =
       Some \<lparr> paused = False, currentTime = 0, src = BlobUrl [0x52, 0x49, 0x46, 0x46],
          onended = True, onerror = True, onpause = False, playPending = True \<rparr>"
    unfolding r by simp_all
  have frame: "fst (onaudioprocess no_faults handlerStatus [4 / 100]
             (run (replyWith (js ''52494646'')) initial)) = NoEvent"
    "audioPlayerRef (step no_faults (Frame [4 / 100]) (run (replyWith (js ''52494646'')) initial))
       = audioPlayerRef (run (replyWith (js ''52494646'')) initial)"
    "mediaRecorder (step no_faults (Frame [4 / 100]) (run (replyWith (js ''52494646'')) initial))
       = mediaRecorder (run (replyWith (js ''52494646'')) initial)"
    "speechBufferCount
        (step no_faults (Frame [4 / 100]) (run (replyWith (js ''52494646'')) initial)) = 1"
    unfolding r
    by (simp_all add: onaudioprocess_def detect_def handlerStatus_def Let_def rms_single
        SPEECH_THRESHOLD_def INTERRUPT_THRESHOLD_def MIN_SPEECH_BUFFERS_def)
  show ?thesis using never here rms_loud frame by blast
qed

section \<open>Hard stop: properties\<close>

lemma stopSteps_cases:
  "stopSteps ev a =
     (if pauseThrows ev then Threw DOMException a
      else if seekThrows ev then Threw DOMException (a\<lparr>paused := True\<rparr>)
      else if srcThrows ev then Threw DOMException (a\<lparr>paused := True, currentTime := 0\<rparr>)
      else if loadThrows ev then Threw DOMException (a\<lparr>paused := True, currentTime := 0, src := NoSrc\<rparr>)
      else Done (a\<lparr>paused := True, currentTime := 0, src := NoSrc\<rparr>))"
  by (simp add: stopSteps_def andThen_def el_defs)

lemma hardStopAudio_Done:
  "\<exists>s'. hardStopAudio ev s = Done s' \<and> isTTSStoppedRef s'"
  by (cases "audioPlayerRef s")
     (simp_all add: hardStopAudio_def interceptBlock_def onPlayer_def hardStopSteps_def
        stopSteps_cases andThen_def tryCatch_def)

lemma hardStopAudio_element:
  assumes "\<not> pauseThrows ev" "\<not> seekThrows ev" "\<not> srcThrows ev"
  shows "audioPlayerRef (logged (hardStopAudio ev s)) =
     map_option (\<lambda>a. a\<lparr>paused := True, currentTime := 0, src := NoSrc,
                        onended := False, onerror := False, onpause := False\<rparr>) (audioPlayerRef s)"
  using assms
  by (cases "audioPlayerRef s")
     (simp_all add: hardStopAudio_def interceptBlock_def onPlayer_def hardStopSteps_def
        stopSteps_cases andThen_def tryCatch_def logged_def)

lemma hardStopAudio_hook:
  assumes "audioController s" "\<not> interceptThrows ev"
  shows "interceptCalls (logged (hardStopAudio ev s)) = interceptCalls s + 1"
    and "\<not> audioController (logged (hardStopAudio ev s))"
  using assms
  by (cases "audioPlayerRef s";
      simp add: hardStopAudio_def interceptBlock_def onPlayer_def hardStopSteps_def
        stopSteps_cases andThen_def tryCatch_def logged_def)+

lemma hardStopAudio_twice:
  "andThen (hardStopAudio ev s) (hardStopAudio ev) = hardStopAudio ev s"
  by (cases "audioPlayerRef s")
     (simp_all add: hardStopAudio_def interceptBlock_def onPlayer_def hardStopSteps_def
        stopSteps_cases andThen_def tryCatch_def)

text \<open>
  Claim C5 as stated says that every teardown step is attempted whatever happens to the
  others. With a \<open>pause()\<close> that throws, an element playing at position 1500 keeps its
  position and its source, although rewinding and clearing the source would not throw.
\<close>

theorem pause_failure_skips_later_steps:
  "audioPlayerRef (logged (hardStopAudio (no_faults\<lparr>pauseThrows := True\<rparr>)
       (initial\<lparr>audioPlayerRef :=
           Some (freshAudio\<lparr>paused := False, currentTime := 1500, src := BlobUrl [0x52]\<rparr>)\<rparr>)))
     = Some (freshAudio\<lparr>paused := False, currentTime := 1500, src := BlobUrl [0x52]\<rparr>)
   \<and> \<not> seekThrows (no_faults\<lparr>pauseThrows := True\<rparr>)
   \<and> \<not> srcThrows (no_faults\<lparr>pauseThrows := True\<rparr>)"
  by (simp add: hardStopAudio_def onPlayer_def hardStopSteps_def
        stopSteps_cases andThen_def tryCatch_def logged_def initial_def no_faults_def freshAudio_def)

text \<open>
  Claim C5, as amended. \<open>hardStopAudio\<close> never passes an exception to its caller and
  always sets \<open>isTTSStoppedRef\<close>; calling it twice in a row gives the state of calling
  it once, and with no hook and no element it changes nothing else. The external hook
  and the element are torn down in two \<open>try\<close> blocks that do not affect each other: a
  registered hook that does not throw is called once and unregistered, whether or not
  the element throws, and a hook that throws stays registered; when pausing, rewinding
  and clearing the source do not throw, the element ends paused at position 0 with an
  empty source and without handlers, whether or not the hook throws. Inside the
  element's block the steps are not independent, a step that throws skips the steps
  after it: the handlers are always removed; when \<open>pause()\<close> throws nothing else
  happens; when rewinding throws the element is paused, and keeps its position and
  source; when clearing the source throws it is paused and rewound, and keeps its
  source; \<open>load()\<close> comes last, and its throwing changes nothing.
\<close>

theorem hardStopAudio_isolates_blocks:
  "hardStopAudio ev s =
     Done (s\<lparr>audioController := (audioController s \<and> interceptThrows ev),
             interceptCalls :=
               interceptCalls s + (if audioController s \<and> \<not> interceptThrows ev then 1 else 0),
             audioPlayerRef :=
               map_option
                 (\<lambda>a. if pauseThrows ev
                      then a\<lparr>onended := False, onerror := False, onpause := False\<rparr>
                      else if seekThrows ev
                      then a\<lparr>onended := False, onerror := False, onpause := False,
                             paused := True\<rparr>
                      else if srcThrows ev
                      then a\<lparr>onended := False, onerror := False, onpause := False,
                             paused := True, currentTime := 0\<rparr>
                      else a\<lparr>onended := False, onerror := False, onpause := False,
                             paused := True, currentTime := 0, src := NoSrc\<rparr>)
                 (audioPlayerRef s),
             isTTSStoppedRef := True\<rparr>)
   \<and> andThen (hardStopAudio ev s) (hardStopAudio ev) = hardStopAudio ev s
   \<and> (\<not> pauseThrows ev \<and> \<not> seekThrows ev \<and> \<not> srcThrows ev \<longrightarrow>
        audioPlayerRef (logged (hardStopAudio ev s)) =
          map_option (\<lambda>a. a\<lparr>paused := True, currentTime := 0, src := NoSrc,
                             onended := False, onerror := False, onpause := False\<rparr>)
            (audioPlayerRef s))
   \<and> (audioController s \<and> \<not> interceptThrows ev \<longrightarrow>
        interceptCalls (logged (hardStopAudio ev s)) = interceptCalls s + 1
        \<and> \<not> audioController (logged (hardStopAudio ev s)))"
proof -
  have eq: "hardStopAudio ev s =
     Done (s\<lparr>audioController := (audioController s \<and> interceptThrows ev),
             interceptCalls :=
               interceptCalls s + (if audioController s \<and> \<not> interceptThrows ev then 1 else 0),
             audioPlayerRef :=
               map_option
                 (\<lambda>a. if pauseThrows ev
                      then a\<lparr>onended := False, onerror := False, onpause := False\<rparr>
                      else if seekThrows ev
                      then a\<lparr>onended := False, onerror := False, onpause := False,
                             paused := True\<rparr>
                      else if srcThrows ev
                      then a\<lparr>onended := False, onerror := False, onpause := False,
                             paused := True, currentTime := 0\<rparr>
                      else a\<lparr>onended := False, onerror := False, onpause := False,
                             paused := True, currentTime := 0, src := NoSrc\<rparr>)
                 (audioPlayerRef s),
             isTTSStoppedRef := True\<rparr>)"
    by (cases s; cases "audioPlayerRef s")
       (auto simp add: hardStopAudio_def interceptBlock_def onPlayer_def hardStopSteps_def
          stopSteps_cases andThen_def tryCatch_def)
  show ?thesis
    using eq hardStopAudio_twice [of ev s] hardStopAudio_element [of ev s]
      hardStopAudio_hook [of s ev]
    by blast
qed

theorem hardStopAudio_isolates_blocks_witness:
  "audioPlayerRef (logged (hardStopAudio (no_faults\<lparr>interceptThrows := True\<rparr>)
       (initial\<lparr>audioController := True, audioPlayerRef :=
           Some (freshAudio\<lparr>paused := False, currentTime := 1500, src := BlobUrl [0x52],
                            onended := True, onerror := True\<rparr>)\<rparr>)))
     = Some freshAudio
   \<and> interceptCalls (logged (hardStopAudio no_faults (initial\<lparr>audioController := True\<rparr>))) = 1
   \<and> audioPlayerRef (logged (hardStopAudio (no_faults\<lparr>seekThrows := True\<rparr>)
       (initial\<lparr>audioPlayerRef :=
           Some (freshAudio\<lparr>paused := False, currentTime := 1500, src := BlobUrl [0x52],
                            onended := True, onerror := True\<rparr>)\<rparr>)))
     = Some (freshAudio\<lparr>paused := True, currentTime := 1500, src := BlobUrl [0x52]\<rparr>)"
proof -
  let ?playing = "freshAudio\<lparr>paused := False, currentTime := 1500, src := BlobUrl [0x52],
                            onended := True, onerror := True\<rparr>"
  have a: "\<not> pauseThrows (no_faults\<lparr>interceptThrows := True\<rparr>)
      \<and> \<not> seekThrows (no_faults\<lparr>interceptThrows := True\<rparr>)
      \<and> \<not> srcThrows (no_faults\<lparr>interceptThrows := True\<rparr>)"
    by (simp add: no_faults_def)
  have b: "audioController (initial\<lparr>audioController := True\<rparr>) \<and> \<not> interceptThrows no_faults"
    by (simp add: no_faults_def)
  note t1 = hardStopAudio_isolates_blocks [of "no_faults\<lparr>interceptThrows := True\<rparr>"
        "initial\<lparr>audioController := True, audioPlayerRef := Some ?playing\<rparr>"]
  note t2 = hardStopAudio_isolates_blocks [of no_faults "initial\<lparr>audioController := True\<rparr>"]
  note t3 = hardStopAudio_isolates_blocks [of "no_faults\<lparr>seekThrows := True\<rparr>"
        "initial\<lparr>audioPlayerRef := Some ?playing\<rparr>"]
  have 1: "audioPlayerRef (logged (hardStopAudio (no_faults\<lparr>interceptThrows := True\<rparr>)
       (initial\<lparr>audioController := True, audioPlayerRef := Some ?playing\<rparr>))) = Some freshAudio"
    using a t1 [THEN conjunct2, THEN conjunct2, THEN conjunct1] by (simp add: freshAudio_def)
  have 2: "interceptCalls (logged (hardStopAudio no_faults (initial\<lparr>audioController := True\<rparr>))) = 1"
    using b t2 [THEN conjunct2, THEN conjunct2, THEN conjunct2] by (simp add: initial_def)
  have 3: "audioPlayerRef (logged (hardStopAudio (no_faults\<lparr>seekThrows := True\<rparr>)
       (initial\<lparr>audioPlayerRef := Some ?playing\<rparr>)))
     = Some (freshAudio\<lparr>paused := True, currentTime := 1500, src := BlobUrl [0x52]\<rparr>)"
    unfolding t3 [THEN conjunct1]
    by (simp add: logged_def no_faults_def freshAudio_def)
  show ?thesis using 1 2 3 by blast
qed

section \<open>The machine: properties\<close>

lemma stopListening_fields [simp]:
  "messages (stopListening s) = messages s"
  "status (stopListening s) = status s"
  "isRecordingRef (stopListening s) = isRecordingRef s"
  "audioPlayerRef (stopListening s) = audioPlayerRef s"
  "mediaRecorder (stopListening s) = mediaRecorder s"
  "pendingRequest (stopListening s) = pendingRequest s"
  "speechBufferCount (stopListening s) = speechBufferCount s"
  "now (stopListening s) = now s"
  by (simp_all add: stopListening_def)

lemma recording_simps [simp]:
  "recording (stopListening s) = recording s"
  "recording (startListening ev s) = recording s"
  "recording (withPlayer body s) = recording s"
  "recording (s\<lparr>status := st\<rparr>) = recording s"
  "recording (s\<lparr>speechBufferCount := n\<rparr>) = recording s"
  "recording (s\<lparr>barVolumes := bv\<rparr>) = recording s"
  "recording (s\<lparr>now := t\<rparr>) = recording s"
  "recording (s\<lparr>audioPlayerRef := p\<rparr>) = recording s"
  by (simp_all add: recording_def)

lemma startRecording_fields [simp]:
  "isRecordingRef (startRecording ev s)"
  "status (startRecording ev s) = Listening"
  "pendingRequest (startRecording ev s) = pendingRequest s"
  "messages (startRecording ev s) = messages s"
  by (simp_all add: startRecording_def Let_def)

lemma playAudioResponse_keeps:
  "\<exists>s'. playAudioResponse ev h s = Done s' \<and> messages s' = messages s
     \<and> isRecordingRef s' = isRecordingRef s \<and> mediaRecorder s' = mediaRecorder s
     \<and> pendingRequest s' = pendingRequest s"
  by (cases "audioPlayerRef s"; cases "hexToBinary h")
     (auto simp add: playAudioResponse_def Let_def setStatusWithLog_def tryCatch_def onPlayer_def
        playSteps_cases withPlayer_def)

lemma processAudio_resume_keeps:
  "\<exists>s'. processAudio_resume ev r s = Done s'
     \<and> isRecordingRef s' = isRecordingRef s \<and> mediaRecorder s' = mediaRecorder s
     \<and> pendingRequest s' = None"
proof (cases r)
  case (Ok d)
  show ?thesis
  proof (cases "truthy (d_audio d)")
    case True
    let ?s1 = "s\<lparr>pendingRequest := None, messages := messages s @ [userMessage d, assistantMessage d]\<rparr>"
    obtain s' where "playAudioResponse ev (the (d_audio d)) ?s1 = Done s'"
      "isRecordingRef s' = isRecordingRef ?s1" "mediaRecorder s' = mediaRecorder ?s1"
      "pendingRequest s' = pendingRequest ?s1"
      using playAudioResponse_keeps [of ev "the (d_audio d)" ?s1] by blast
    then show ?thesis using Ok True
      by (simp add: processAudio_resume_def processAudio_try_def Let_def tryCatch_def tryFinally_def)
  next
    case False
    then show ?thesis using Ok
      by (simp add: processAudio_resume_def processAudio_try_def Let_def tryCatch_def tryFinally_def)
  qed
qed (simp_all add: processAudio_resume_def processAudio_try_def Let_def tryCatch_def tryFinally_def)

lemma onstop_resume_result:
  "\<exists>s'. onstop_resume ev r s = Done s' \<and> \<not> isRecordingRef s' \<and> status s' = Waiting
        \<and> mediaRecorder s' = mediaRecorder s \<and> pendingRequest s' = None"
proof -
  obtain s1 where "processAudio_resume ev r s = Done s1" "mediaRecorder s1 = mediaRecorder s"
    "pendingRequest s1 = None"
    using processAudio_resume_keeps by blast
  then show ?thesis by (simp add: onstop_resume_def andThen_def)
qed

lemma hardStopAudio_keeps:
  "\<exists>s'. hardStopAudio ev s = Done s' \<and> status s' = status s
     \<and> isRecordingRef s' = isRecordingRef s \<and> mediaRecorder s' = mediaRecorder s
     \<and> pendingRequest s' = pendingRequest s"
  by (cases "audioPlayerRef s")
     (simp_all add: hardStopAudio_def interceptBlock_def onPlayer_def hardStopSteps_def
        stopSteps_cases andThen_def tryCatch_def)

lemma detect_flag_kept:
  "isRecordingRef s \<Longrightarrow> isRecordingRef (snd (detect ev st r s))"
  by (simp add: detect_def Let_def)

lemma detect_guarded:
  assumes "isRecordingRef s" "st \<noteq> Speaking"
  shows "fst (detect ev st r s) = NoEvent"
    and "mediaRecorder (snd (detect ev st r s)) = mediaRecorder s"
    and "pendingRequest (snd (detect ev st r s)) = pendingRequest s"
    and "status s \<noteq> Speaking \<Longrightarrow> status (snd (detect ev st r s)) \<noteq> Speaking"
  using assms by (simp_all add: detect_def Let_def)

lemma detect_idle:
  assumes "\<not> isRecordingRef s" "st \<noteq> Speaking" "status s \<noteq> Speaking"
  shows "pendingRequest (snd (detect ev st r s)) = pendingRequest s"
    and "status (snd (detect ev st r s)) \<noteq> Speaking"
    and "isRecordingRef (snd (detect ev st r s))
           \<or> mediaRecorder (snd (detect ev st r s)) = mediaRecorder s"
  using assms by (simp_all add: detect_def Let_def)

lemma handlerStatus_quiet: "handlerStatus \<noteq> Speaking"
  by (simp add: handlerStatus_def)

lemma inv_detect:
  assumes "inv s"
  shows "inv (snd (detect ev handlerStatus r s))"
proof (cases "isRecordingRef s")
  case True
  then show ?thesis
    using assms detect_guarded [OF True handlerStatus_quiet, of ev r]
      detect_flag_kept [of s ev handlerStatus r]
    by (simp add: inv_def recording_def)
next
  case False
  then have np: "pendingRequest s = None" "\<not> recording s" "status s \<noteq> Speaking"
    using assms by (auto simp add: inv_def)
  show ?thesis using assms False np detect_idle [OF False handlerStatus_quiet np(3), of ev r]
    by (auto simp add: inv_def recording_def)
qed

lemma inv_barVolumes: "inv (s\<lparr>barVolumes := b\<rparr>) = inv s"
  by (simp add: inv_def)

lemma inv_startListening: "inv s \<Longrightarrow> inv (startListening ev s)"
  by (simp add: inv_def)

lemma inv_step:
  assumes "inv s"
  shows "inv (step ev e s)"
proof (cases e)
  case Mount
  then show ?thesis using assms by (simp add: inv_def)
next
  case Unmount
  obtain s' where "hardStopAudio ev (stopListening s) = Done s'" "status s' = status s"
     "isRecordingRef s' = isRecordingRef s" "mediaRecorder s' = mediaRecorder s"
     "pendingRequest s' = pendingRequest s"
    using hardStopAudio_keeps [of ev "stopListening s"] by auto
  then show ?thesis using assms Unmount by (simp add: inv_def logged_def recording_def)
next
  case (Frame d)
  then show ?thesis using assms inv_detect [of "s\<lparr>barVolumes := bandsOf d\<rparr>" ev "rmsOf d"]
    by (simp add: onaudioprocess_def inv_barVolumes)
next
  case (MicData d)
  then show ?thesis using assms
    by (auto simp add: inv_def recording_def split: option.splits)
next
  case (Elapse n)
  then show ?thesis using assms
    by (auto simp add: inv_def recording_def fireTimer_def timeoutCallback_def mediaRecorder_stop_def
        onstop_begin_def ondataavailable_def processAudio_begin_def Let_def split: option.splits)
next
  case (Response r)
  obtain s' where "onstop_resume ev r s = Done s'" "\<not> isRecordingRef s'" "status s' = Waiting"
       "mediaRecorder s' = mediaRecorder s" "pendingRequest s' = None"
    using onstop_resume_result by blast
  then show ?thesis using assms Response
    by (auto simp add: inv_def recording_def logged_def)
next
  case PlayStarted
  then show ?thesis using assms by (simp add: inv_def settlePlay_def recording_def)
next
  case PlayRejected
  then show ?thesis using assms
    by (auto simp add: inv_def settlePlay_def recording_def resumeAfterPlayback_def
        setStatusWithLog_def split: option.splits)
next
  case PlayEnded
  then show ?thesis using assms
    by (auto simp add: inv_def recording_def resumeAfterPlayback_def
        setStatusWithLog_def split: option.splits)
next
  case PlayError
  then show ?thesis using assms
    by (auto simp add: inv_def recording_def resumeAfterPlayback_def
        setStatusWithLog_def split: option.splits)
qed

lemma inv_initial: "inv initial"
  by (simp add: inv_def initial_def recording_def)

lemma run_snoc: "run (sched @ [(ev, e)]) s = step ev e (run sched s)"
  by (simp add: run_def)

lemma inv_run: "inv s \<Longrightarrow> inv (run sched s)"
  by (induction sched rule: rev_induct) (auto simp add: run_snoc inv_step, simp add: run_def)

lemma flag_cleared_only_by_response:
  assumes "isRecordingRef s" "\<not> isRecordingRef (step ev e s)"
  shows "(\<exists>r. e = Response r) \<and> pendingRequest s \<noteq> None
       \<and> pendingRequest (step ev e s) = None \<and> status (step ev e s) = Waiting"
proof (cases e)
  case Unmount
  obtain s' where "hardStopAudio ev (stopListening s) = Done s'"
     "isRecordingRef s' = isRecordingRef s"
    using hardStopAudio_keeps [of ev "stopListening s"] by auto
  then show ?thesis using assms Unmount by (simp add: logged_def)
next
  case (Frame d)
  then show ?thesis
    using assms detect_flag_kept [of "s\<lparr>barVolumes := bandsOf d\<rparr>" ev handlerStatus "rmsOf d"]
    by (simp add: onaudioprocess_def split: if_splits)
next
  case (Response r)
  obtain s' where "onstop_resume ev r s = Done s'" "\<not> isRecordingRef s'" "status s' = Waiting"
       "mediaRecorder s' = mediaRecorder s" "pendingRequest s' = None"
    using onstop_resume_result by blast
  then show ?thesis using assms Response
    by (auto simp add: logged_def split: if_splits)
next
  case (Elapse n)
  then show ?thesis using assms
    by (auto simp add: fireTimer_def timeoutCallback_def mediaRecorder_stop_def
        onstop_begin_def ondataavailable_def processAudio_begin_def Let_def split: option.splits if_splits)
qed (use assms in \<open>auto simp add: settlePlay_def resumeAfterPlayback_def
        setStatusWithLog_def split: option.splits if_splits\<close>)

text \<open>One recorder at a time: a buffer delivered while a recorder is recording leaves it
  in place.\<close>

lemma recorder_kept_while_recording:
  assumes "recording (run sched initial)"
  shows "mediaRecorder (step ev (Frame d) (run sched initial)) = mediaRecorder (run sched initial)"
proof -
  have i: "inv (run sched initial)" by (rule inv_run [OF inv_initial])
  then have "isRecordingRef (run sched initial)"
    using assms by (auto simp add: inv_def)
  then show ?thesis
    using detect_guarded(2) [of "(run sched initial)\<lparr>barVolumes := bandsOf d\<rparr>"
        handlerStatus ev "rmsOf d"] handlerStatus_quiet
    by (simp add: onaudioprocess_def)
qed

text \<open>
  Claim C6. In every state the component reaches from its first render, by any sequence
  of events in any environment, a pending request implies that \<open>isRecordingRef\<close> is
  set; a buffer delivered then gives no event, and leaves the recorder and the request
  as they are. The flag is set by \<open>startRecording\<close> and kept when the recorder stops
  and the request is sent. The only event that clears it is the settling of the
  request: the handler that resumes after \<open>processAudio\<close> clears it and leaves the
  status \<open>waiting\<close>, listening again, with the reply playing if it had audio.
\<close>

theorem pending_request_blocks_speech_start:
  "(pendingRequest (run sched initial) \<noteq> None \<longrightarrow>
        isRecordingRef (run sched initial)
      \<and> fst (onaudioprocess ev handlerStatus inputData (run sched initial)) = NoEvent
      \<and> mediaRecorder (step ev (Frame inputData) (run sched initial))
          = mediaRecorder (run sched initial)
      \<and> pendingRequest (step ev (Frame inputData) (run sched initial))
          = pendingRequest (run sched initial))
   \<and> isRecordingRef (startRecording ev s)
   \<and> isRecordingRef (onstop_begin s) = isRecordingRef s
   \<and> (isRecordingRef s \<and> \<not> isRecordingRef (step ev e s) \<longrightarrow>
        (\<exists>r. e = Response r) \<and> pendingRequest s \<noteq> None
        \<and> pendingRequest (step ev e s) = None \<and> status (step ev e s) = Waiting)"
proof -
  let ?t = "run sched initial"
  have i: "inv ?t" by (rule inv_run [OF inv_initial])
  have a: "isRecordingRef ?t \<and> fst (onaudioprocess ev handlerStatus inputData ?t) = NoEvent
      \<and> mediaRecorder (step ev (Frame inputData) ?t) = mediaRecorder ?t
      \<and> pendingRequest (step ev (Frame inputData) ?t) = pendingRequest ?t"
    if p: "pendingRequest ?t \<noteq> None"
  proof -
    have f: "isRecordingRef ?t"
      using i p by (auto simp add: inv_def)
    show ?thesis
      using f detect_guarded(1-3) [of "?t\<lparr>barVolumes := bandsOf inputData\<rparr>"
          handlerStatus ev "rmsOf inputData"] handlerStatus_quiet
      by (simp add: onaudioprocess_def)
  qed
  have b: "isRecordingRef (onstop_begin s) = isRecordingRef s"
    by (simp add: onstop_begin_def processAudio_begin_def Let_def)
  show ?thesis using a b flag_cleared_only_by_response [of s ev e] by auto
qed

lemma run_twoTurns:
  "run twoTurns initial =
     \<lparr> messages = [userMessage dSilent, assistantMessage dSilent], status = Processing,
       loading = True, isRecording = True, isRecordingRef = True, barVolumes = bandsOf [1],
       isTTSStoppedRef = False, speechBufferCount = 0, audioPlayerRef = Some freshAudio,
       audioController = False, interceptCalls = 0, processorRef = False, liveProcessors = 1,
       audioChunksRef = [[4, 5]],
       mediaRecorder = Some \<lparr> rstate = Inactive, captured = [4, 5], timerDue = None \<rparr>,
       pendingRequest = Some [4, 5], now = 10000 \<rparr>"
  by (simp add: twoTurns_def oneTurn_def run_def onaudioprocess_def detect_def startListening_def
      stopListening_def startRecording_def withPlayer_def stopSteps_cases logged_def fireTimer_def
      timeoutCallback_def mediaRecorder_stop_def onstop_begin_def ondataavailable_def
      processAudio_begin_def Let_def SPEECH_THRESHOLD_def INTERRUPT_THRESHOLD_def
      MIN_SPEECH_BUFFERS_def onstop_resume_def processAudio_resume_def processAudio_try_def
      truthy_def tryCatch_def tryFinally_def andThen_def dSilent_def rms_one initial_def
      no_faults_def freshAudio_def handlerStatus_def numeral_eq_Suc)

text \<open>
  In the sample run a processor is attached while the second request is pending; a loud
  buffer delivered then starts nothing.
\<close>

theorem pending_request_blocks_speech_start_witness:
  "pendingRequest (run twoTurns initial) = Some [4, 5]
   \<and> liveProcessors (run twoTurns initial) = 1
   \<and> isRecordingRef (run twoTurns initial)
   \<and> fst (onaudioprocess no_faults handlerStatus [1] (run twoTurns initial)) = NoEvent
   \<and> mediaRecorder (step no_faults (Frame [1]) (run twoTurns initial))
       = Some \<lparr> rstate = Inactive, captured = [4, 5], timerDue = None \<rparr>"
proof -
  have p: "pendingRequest (run twoTurns initial) \<noteq> None"
    by (simp add: run_twoTurns)
  show ?thesis
    using p pending_request_blocks_speech_start [of twoTurns no_faults "[1]"]
    by (simp add: run_twoTurns)
qed

section \<open>The recording ceiling\<close>

lemma run_Cons: "run (x # sched) s = run sched (step (fst x) (snd x) s)"
  by (simp add: run_def case_prod_unfold)

lemma run_Nil: "run [] s = s"
  by (simp add: run_def)

lemma run_append: "run (a @ b) s = run b (run a s)"
  by (simp add: run_def)

lemma run_while_recording:
  assumes "mediaRecorder s = Some \<lparr>rstate = Recording, captured = c, timerDue = Some due\<rparr>"
    and "list_all (\<lambda>x. micOrTime (snd x)) pre"
    and "now s + elapsed pre < due"
  shows "run pre s = s\<lparr>now := now s + elapsed pre,
           mediaRecorder := Some \<lparr>rstate = Recording, captured = c @ micData pre,
                                   timerDue = Some due\<rparr>\<rparr>"
  using assms
proof (induction pre arbitrary: s c)
  case Nil
  then show ?case by (simp add: run_Nil elapsed_def micData_def)
next
  case (Cons x pre)
  obtain ev e where x: "x = (ev, e)" by (cases x)
  have me: "micOrTime e" using Cons.prems(2) x by simp
  show ?case
  proof (cases e)
    case (MicData d)
    let ?s1 = "s\<lparr>mediaRecorder := Some \<lparr>rstate = Recording, captured = c @ d, timerDue = Some due\<rparr>\<rparr>"
    have st: "step ev e s = ?s1" using MicData Cons.prems(1) by simp
    have "run pre ?s1 = ?s1\<lparr>now := now ?s1 + elapsed pre,
           mediaRecorder := Some \<lparr>rstate = Recording, captured = (c @ d) @ micData pre,
                                   timerDue = Some due\<rparr>\<rparr>"
      using Cons.prems MicData x by (intro Cons.IH) (simp_all add: elapsed_def)
    then show ?thesis using st x MicData by (simp add: run_Cons elapsed_def micData_def)
  next
    case (Elapse n)
    let ?s1 = "s\<lparr>now := now s + n\<rparr>"
    have lt: "now s + n < due" using Cons.prems(3) x Elapse by (simp add: elapsed_def)
    have st: "step ev e s = ?s1" using Elapse Cons.prems(1) lt by (simp add: fireTimer_def)
    have "run pre ?s1 = ?s1\<lparr>now := now ?s1 + elapsed pre,
           mediaRecorder := Some \<lparr>rstate = Recording, captured = c @ micData pre,
                                   timerDue = Some due\<rparr>\<rparr>"
      using Cons.prems Elapse x by (intro Cons.IH) (simp_all add: elapsed_def)
    then show ?thesis using st x Elapse by (simp add: run_Cons elapsed_def micData_def add.assoc)
  qed (use me in simp_all)
qed

lemma startRecording_recorder:
  "\<not> micDenied ev \<Longrightarrow> mediaRecorder (startRecording ev s) =
      Some \<lparr>rstate = Recording, captured = [], timerDue = Some (now s + 5000)\<rparr>"
  by (simp add: startRecording_def Let_def stopListening_def withPlayer_def split: option.splits)

lemma startRecording_now [simp]: "now (startRecording ev s) = now s"
  by (simp add: startRecording_def Let_def stopListening_def withPlayer_def split: option.splits)

lemma startRecording_chunks: "audioChunksRef (startRecording ev s) = []"
  by (simp add: startRecording_def Let_def)

lemma startRecording_pending: "pendingRequest (startRecording ev s) = pendingRequest s"
  by (simp add: startRecording_def Let_def stopListening_def withPlayer_def split: option.splits)

text \<open>
  Claim C7. Time is the model's clock, advanced by \<open>Elapse\<close> events; the recorder and
  its timer behave as \<open>MediaRecorder\<close> and \<open>setTimeout\<close> are specified. After
  \<open>startRecording\<close> with a granted microphone, let data arrive and time pass with no
  other event (the code has no explicit stop), less than 5000 ms in all: the recorder
  is still recording and holds the data that arrived. The event that brings the
  duration to 5000 ms or more runs the timer's callback, whose effect is that of
  \<open>mediaRecorder.stop()\<close> at that moment: the recorder is inactive, the status is
  \<open>processing\<close>, and the request that is sent carries the data that arrived, which is
  not empty when some data arrived.
\<close>

theorem recording_stops_at_ceiling:
  assumes mic: "\<not> micDenied ev0"
    and only: "list_all (\<lambda>x. micOrTime (snd x)) pre"
    and before: "elapsed pre < 5000"
    and reach: "5000 \<le> elapsed pre + n"
    and frames: "micData pre \<noteq> []"
  shows "mediaRecorder (run pre (startRecording ev0 s0)) =
           Some \<lparr>rstate = Recording, captured = micData pre, timerDue = Some (now s0 + 5000)\<rparr>
       \<and> pendingRequest (run pre (startRecording ev0 s0)) = pendingRequest s0
       \<and> run (pre @ [(ev, Elapse n)]) (startRecording ev0 s0) =
           mediaRecorder_stop ((run pre (startRecording ev0 s0))
             \<lparr>now := now s0 + elapsed pre + n,
              mediaRecorder := Some \<lparr>rstate = Recording, captured = micData pre,
                                      timerDue = None\<rparr>\<rparr>)
       \<and> mediaRecorder (run (pre @ [(ev, Elapse n)]) (startRecording ev0 s0)) =
           Some \<lparr>rstate = Inactive, captured = micData pre, timerDue = None\<rparr>
       \<and> status (run (pre @ [(ev, Elapse n)]) (startRecording ev0 s0)) = Processing
       \<and> pendingRequest (run (pre @ [(ev, Elapse n)]) (startRecording ev0 s0)) = Some (micData pre)
       \<and> the (pendingRequest (run (pre @ [(ev, Elapse n)]) (startRecording ev0 s0))) \<noteq> []"
proof -
  let ?s = "startRecording ev0 s0"
  let ?r = "\<lparr>rstate = Recording, captured = micData pre, timerDue = Some (now s0 + 5000)\<rparr>"
  have rp: "run pre ?s = ?s\<lparr>now := now ?s + elapsed pre, mediaRecorder := Some ?r\<rparr>"
    using run_while_recording [OF startRecording_recorder [OF mic] only, of s0] before by simp
  have a: "mediaRecorder (run pre ?s) = Some ?r" by (simp add: rp)
  have b: "pendingRequest (run pre ?s) = pendingRequest s0"
    by (simp add: rp startRecording_pending)
  let ?u = "(run pre ?s)\<lparr>now := now s0 + elapsed pre + n,
              mediaRecorder := Some \<lparr>rstate = Recording, captured = micData pre,
                                      timerDue = None\<rparr>\<rparr>"
  have c: "run (pre @ [(ev, Elapse n)]) ?s = mediaRecorder_stop ?u"
    using reach
    by (simp add: run_append run_Cons run_Nil rp fireTimer_def timeoutCallback_def)
  have d: "mediaRecorder (mediaRecorder_stop ?u) =
           Some \<lparr>rstate = Inactive, captured = micData pre, timerDue = None\<rparr>"
    "status (mediaRecorder_stop ?u) = Processing"
    "pendingRequest (mediaRecorder_stop ?u) = Some (micData pre)"
    by (simp_all add: mediaRecorder_stop_def onstop_begin_def ondataavailable_def
        processAudio_begin_def Let_def rp startRecording_chunks)
  show ?thesis using a b c d frames by simp
qed

theorem recording_stops_at_ceiling_witness:
  "mediaRecorder (run [(no_faults, MicData [1, 2]), (no_faults, Elapse 4600), (no_faults, MicData [3])]
       (startRecording no_faults initial)) =
     Some \<lparr>rstate = Recording, captured = [1, 2, 3], timerDue = Some 5000\<rparr>
   \<and> status (run ([(no_faults, MicData [1, 2]), (no_faults, Elapse 4600), (no_faults, MicData [3])]
                    @ [(no_faults, Elapse 400)]) (startRecording no_faults initial)) = Processing
   \<and> pendingRequest (run ([(no_faults, MicData [1, 2]), (no_faults, Elapse 4600), (no_faults, MicData [3])]
                    @ [(no_faults, Elapse 400)]) (startRecording no_faults initial)) = Some [1, 2, 3]"
proof -
  let ?pre = "[(no_faults, MicData [1, 2]), (no_faults, Elapse 4600), (no_faults, MicData [3])]"
  have a: "\<not> micDenied no_faults" by (simp add: no_faults_def)
  have b: "list_all (\<lambda>x. micOrTime (snd x)) ?pre" by simp
  have c: "elapsed ?pre < 5000" "5000 \<le> elapsed ?pre + 400" by (simp_all add: elapsed_def)
  have d: "micData ?pre = [1, 2, 3]" by (simp add: micData_def)
  have e: "micData ?pre \<noteq> []" by (simp add: d)
  have f: "now initial = 0" by (simp add: initial_def)
  note t = recording_stops_at_ceiling [OF a b c e, of initial no_faults]
  have 1: "mediaRecorder (run ?pre (startRecording no_faults initial)) =
     Some \<lparr>rstate = Recording, captured = [1, 2, 3], timerDue = Some 5000\<rparr>"
    using t [THEN conjunct1] d f by simp
  have 2: "status (run (?pre @ [(no_faults, Elapse 400)]) (startRecording no_faults initial))
             = Processing"
    using t by blast
  have 3: "pendingRequest (run (?pre @ [(no_faults, Elapse 400)]) (startRecording no_faults initial))
             = Some [1, 2, 3]"
    using t d by metis
  show ?thesis using 1 2 3 by blast
qed

section \<open>Energy analysis: properties\<close>

lemma foldl_squares:
  "foldl (\<lambda>sum sample. sum + sample * sample) (a::real) xs = a + (\<Sum>x\<leftarrow>xs. x\<^sup>2)"
  by (induction xs arbitrary: a) (simp_all add: power2_eq_square add.assoc)

lemma sum_squares_nonneg: "0 \<le> (\<Sum>x\<leftarrow>xs. (x::real)\<^sup>2)"
  by (induction xs) simp_all

lemma rmsOf_nonempty:
  "xs \<noteq> [] \<Longrightarrow> rmsOf xs = Val (sqrt ((\<Sum>x\<leftarrow>xs. x\<^sup>2) / real (length xs)))"
  using sum_squares_nonneg [of xs]
  by (simp add: rmsOf_def meanSquare_def foldl_squares not_less divide_nonneg_nonneg)

lemma bandRange_length:
  "i < 7 \<Longrightarrow> length (bandRange xs i) = length xs div 8"
  "length (bandRange xs 7) = length xs - 7 * (length xs div 8)"
proof -
  have "(i + 1) * (length xs div 8) \<le> length xs" if "i < 7"
  proof -
    have "(i + 1) * (length xs div 8) \<le> 8 * (length xs div 8)"
      using that by (intro mult_right_mono) simp_all
    also have "\<dots> \<le> length xs" by simp
    finally show ?thesis .
  qed
  then show "i < 7 \<Longrightarrow> length (bandRange xs i) = length xs div 8"
    by (auto simp add: bandRange_def slice_def Let_def min_def)
  show "length (bandRange xs 7) = length xs - 7 * (length xs div 8)"
    by (simp add: bandRange_def slice_def Let_def)
qed

lemma bandRange_nonempty:
  assumes "8 \<le> length xs" "i < 8"
  shows "bandRange xs i \<noteq> []"
proof -
  have pos: "0 < length xs div 8" using assms(1) by (simp add: div_greater_zero_iff)
  have "7 * (length xs div 8) < length xs"
  proof -
    have "7 * (length xs div 8) < 8 * (length xs div 8)" using pos by simp
    also have "\<dots> \<le> length xs" by simp
    finally show ?thesis .
  qed
  then have "0 < length (bandRange xs 7)" by (simp add: bandRange_length)
  moreover have "0 < length (bandRange xs i)" if "i < 7"
    using that pos by (simp add: bandRange_length)
  ultimately have "0 < length (bandRange xs i)"
    using assms(2) by (cases "i = 7") auto
  then show ?thesis by auto
qed

lemma chunk_join: "take b (drop (k * b) xs) @ drop (Suc k * b) xs = drop (k * b) xs"
proof -
  have "take b (drop (k * b) xs) @ drop b (drop (k * b) xs) = drop (k * b) xs"
    by (rule append_take_drop_id)
  then show ?thesis by simp
qed

lemma bands_partition: "concat (map (bandRange xs) [0..<8]) = xs"
proof -
  define b where "b = length xs div 8"
  have upt8: "[0..<8] = [0, 1, 2, 3, 4, 5, 6, 7]"
    by (simp add: upt_rec)
  have last: "bandRange xs 7 = drop (7 * b) xs"
    by (simp add: bandRange_def slice_def Let_def b_def)
  have mid: "bandRange xs i = take b (drop (i * b) xs)" if "i < 7" for i
    using that by (simp add: bandRange_def slice_def Let_def b_def)
  have j: "take b (drop (k * b) xs) @ drop (Suc k * b) xs = drop (k * b) xs" for k
    by (rule chunk_join)
  have "concat (map (bandRange xs) [0..<8]) =
      take b (drop (0 * b) xs) @ take b (drop (1 * b) xs) @ take b (drop (2 * b) xs)
      @ take b (drop (3 * b) xs) @ take b (drop (4 * b) xs) @ take b (drop (5 * b) xs)
      @ take b (drop (6 * b) xs) @ drop (7 * b) xs"
    unfolding upt8 using last mid [of 0] mid [of 1] mid [of 2] mid [of 3] mid [of 4] mid [of 5] mid [of 6]
    by simp
  also have "\<dots> = take b (drop (0 * b) xs) @ take b (drop (1 * b) xs) @ take b (drop (2 * b) xs)
      @ take b (drop (3 * b) xs) @ take b (drop (4 * b) xs) @ take b (drop (5 * b) xs)
      @ drop (6 * b) xs"
    using j [of 6] by (simp add: numeral_eq_Suc)
  also have "\<dots> = take b (drop (0 * b) xs) @ take b (drop (1 * b) xs) @ take b (drop (2 * b) xs)
      @ take b (drop (3 * b) xs) @ take b (drop (4 * b) xs) @ drop (5 * b) xs"
    using j [of 5] by (simp add: numeral_eq_Suc)
  also have "\<dots> = take b (drop (0 * b) xs) @ take b (drop (1 * b) xs) @ take b (drop (2 * b) xs)
      @ take b (drop (3 * b) xs) @ drop (4 * b) xs"
    using j [of 4] by (simp add: numeral_eq_Suc)
  also have "\<dots> = take b (drop (0 * b) xs) @ take b (drop (1 * b) xs) @ take b (drop (2 * b) xs)
      @ drop (3 * b) xs"
    using j [of 3] by (simp add: numeral_eq_Suc)
  also have "\<dots> = take b (drop (0 * b) xs) @ take b (drop (1 * b) xs) @ drop (2 * b) xs"
    using j [of 2] by (simp add: numeral_eq_Suc)
  also have "\<dots> = take b (drop (0 * b) xs) @ drop (1 * b) xs"
    using j [of 1] by (simp add: numeral_eq_Suc)
  also have "\<dots> = xs" by simp
  finally show ?thesis .
qed

lemma bandsOf_nth:
  assumes "8 \<le> length xs" "i < 8"
  shows "bandsOf xs ! i =
     Val (min 1 (sqrt ((\<Sum>x\<leftarrow>bandRange xs i. x\<^sup>2) / real (length (bandRange xs i))) * 10))"
  using assms by (simp add: bandsOf_def rmsOf_nonempty [OF bandRange_nonempty])

lemma detect_barVolumes: "barVolumes (snd (detect ev st r s)) = barVolumes s"
  by (simp add: detect_def Let_def startRecording_def stopListening_def withPlayer_def
      split: option.splits)

text \<open>
  Claim C8. The analysis is a function of the buffer alone, so the same buffer gives the
  same result. For a buffer of at least 8 samples (the script processor delivers 2048):
  the RMS is the square root of the mean of the squared samples over the whole buffer;
  there are 8 bands; band \<open>i\<close> is the RMS of the \<open>i\<close>-th range, times 10, cut off at 1, and
  lies in [0, 1]; the ranges are contiguous and cover the buffer, the first seven of
  length \<open>n div 8\<close> and the last one with the remainder; and what the handler stores for
  display is exactly these bands, whatever the state. Arithmetic is over the reals.
\<close>

theorem energy_analysis_equations:
  assumes "8 \<le> length inputData"
  shows "rmsOf inputData = Val (sqrt ((\<Sum>x\<leftarrow>inputData. x\<^sup>2) / real (length inputData)))
     \<and> length (bandsOf inputData) = 8
     \<and> (\<forall>i<8. bandsOf inputData ! i =
          Val (min 1 (sqrt ((\<Sum>x\<leftarrow>bandRange inputData i. x\<^sup>2)
                              / real (length (bandRange inputData i))) * 10)))
     \<and> (\<forall>i<8. \<exists>v. bandsOf inputData ! i = Val v \<and> 0 \<le> v \<and> v \<le> 1)
     \<and> concat (map (bandRange inputData) [0..<8]) = inputData
     \<and> (\<forall>i<7. length (bandRange inputData i) = length inputData div 8)
     \<and> length (bandRange inputData 7) = length inputData - 7 * (length inputData div 8)
     \<and> barVolumes (snd (onaudioprocess ev st inputData s)) = bandsOf inputData"
proof -
  have ne: "inputData \<noteq> []" using assms by auto
  have r: "rmsOf inputData = Val (sqrt ((\<Sum>x\<leftarrow>inputData. x\<^sup>2) / real (length inputData)))"
    by (rule rmsOf_nonempty [OF ne])
  have l: "length (bandsOf inputData) = 8" by (simp add: bandsOf_def)
  have n: "\<forall>i<8. bandsOf inputData ! i =
          Val (min 1 (sqrt ((\<Sum>x\<leftarrow>bandRange inputData i. x\<^sup>2)
                              / real (length (bandRange inputData i))) * 10))"
    using bandsOf_nth [OF assms] by blast
  have c: "\<forall>i<8. \<exists>v. bandsOf inputData ! i = Val v \<and> 0 \<le> v \<and> v \<le> 1"
  proof (intro allI impI)
    fix i :: nat assume i: "i < 8"
    let ?v = "min 1 (sqrt ((\<Sum>x\<leftarrow>bandRange inputData i. x\<^sup>2)
                              / real (length (bandRange inputData i))) * 10)"
    have "0 \<le> ?v" using sum_squares_nonneg [of "bandRange inputData i"] by simp
    moreover have "?v \<le> 1" by simp
    ultimately show "\<exists>v. bandsOf inputData ! i = Val v \<and> 0 \<le> v \<and> v \<le> 1"
      using n i by blast
  qed
  have b: "barVolumes (snd (onaudioprocess ev st inputData s)) = bandsOf inputData"
    by (simp add: onaudioprocess_def detect_barVolumes)
  show ?thesis
    using r l n c bands_partition [of inputData] bandRange_length(1) [of _ inputData]
      bandRange_length(2) [of inputData] b by blast
qed

theorem energy_analysis_equations_witness:
  "rmsOf (replicate 9 1) = Val 1
   \<and> length (bandsOf (replicate 9 1)) = 8
   \<and> bandsOf (replicate 9 1) ! 7 = Val 1
   \<and> length (bandRange (replicate 9 1) 7) = 2"
proof -
  have a: "8 \<le> length (replicate 9 (1::real))" by simp
  note t = energy_analysis_equations [OF a, of no_faults handlerStatus initial]
  have 1: "rmsOf (replicate 9 1) = Val 1" using t [THEN conjunct1] by (simp add: sum_list_replicate)
  have 2: "length (bandsOf (replicate 9 1)) = 8" using t by blast
  have 4: "length (bandRange (replicate 9 1) 7) = 2" using t by simp
  have b7: "bandRange (replicate 9 (1::real)) 7 = replicate 2 1"
    by (simp add: bandRange_def slice_def Let_def)
  have "bandsOf (replicate 9 1) ! 7 =
          Val (min 1 (sqrt ((\<Sum>x\<leftarrow>bandRange (replicate 9 1) 7. x\<^sup>2)
                              / real (length (bandRange (replicate 9 1) 7))) * 10))"
    using t by simp
  then have 3: "bandsOf (replicate 9 1) ! 7 = Val 1"
    unfolding b7 by (simp add: sum_list_replicate)
  show ?thesis using 1 2 3 4 by blast
qed

end
